theory Spec2Isabelle
  imports Main "HOL-Library.Word"
begin

unbundle bit_operations_syntax

section \<open>LSB steganography in 24-bit BMP images: the data model\<close>

text \<open>
  The program hides a secret file in the least significant bits of the pixel bytes of
  a BMP image (\<^verbatim>\<open>encode.c\<close>) and extracts it again (\<^verbatim>\<open>decode.c\<close>).
  A C \<^verbatim>\<open>char\<close> is a byte, a C \<^verbatim>\<open>int\<close> or \<^verbatim>\<open>uint\<close> is a 32-bit word; a C string is
  the list of its bytes before the terminating NUL.
\<close>

type_synonym byte = "8 word"
type_synonym cint = "32 word"

datatype Status = e_success | e_failure

text \<open>String literals of the source, as bytes.\<close>

definition ascii :: "string \<Rightarrow> byte list" where
  "ascii s = map (\<lambda>c. of_nat (of_char c)) s"

text \<open>\<^verbatim>\<open>#define MAGIC_STRING "#*"\<close> (\<^verbatim>\<open>decode.h\<close>).\<close>

definition MAGIC_STRING :: "byte list" where
  "MAGIC_STRING = [0x23, 0x2A]"

text \<open>\<^verbatim>\<open>#define MAX_FILE_SUFFIX 5\<close> (\<^verbatim>\<open>decode.h\<close>).\<close>

definition MAX_FILE_SUFFIX :: nat where
  "MAX_FILE_SUFFIX = 5"

text \<open>
  The bytes a C program sees as the string stored in a \<^verbatim>\<open>char\<close> array: everything
  before the first NUL.
\<close>

definition cstr :: "byte list \<Rightarrow> byte list" where
  "cstr buf = takeWhile (\<lambda>c. c \<noteq> 0) buf"

text \<open>
  A local array that the source declares without initialising holds indeterminate
  bytes. The model takes them as a parameter \<open>g\<close> (the byte found at each index), so
  that every statement holds for whatever the stack contained.
\<close>

definition uninit :: "nat \<Rightarrow> (nat \<Rightarrow> byte) \<Rightarrow> byte list" where
  "uninit n g = map g [0..<n]"

section \<open>The bit codec\<close>

text \<open>
  \<^verbatim>\<open>image_buffer[i] = (image_buffer[i] & ~1) | ((data >> i) & 1)\<close>: the \<^verbatim>\<open>char\<close>
  operand is promoted to \<^verbatim>\<open>int\<close> (sign extension), the shift of the signed value is
  arithmetic, and the result is truncated to a \<^verbatim>\<open>char\<close> again.
\<close>

definition embed_bit :: "cint \<Rightarrow> nat \<Rightarrow> byte \<Rightarrow> byte" where
  "embed_bit v i c = ucast ((scast c AND NOT 1) OR (signed_drop_bit i v AND 1))"

text \<open>\<^verbatim>\<open>encode_byte_to_lsb\<close> (\<^verbatim>\<open>encode.c\<close>): the loop \<^verbatim>\<open>for (i = 0; i < 8; i++)\<close>.\<close>

definition encode_byte_to_lsb :: "byte \<Rightarrow> byte list \<Rightarrow> Status \<times> byte list" where
  "encode_byte_to_lsb data image_buffer =
     (e_success,
      fold (\<lambda>i buf. buf[i := embed_bit (scast data) i (buf ! i)]) [0..<8] image_buffer)"

text \<open>\<^verbatim>\<open>encode_size_to_lsb\<close> (\<^verbatim>\<open>encode.c\<close>): the same over 32 bytes and an \<^verbatim>\<open>int\<close>.\<close>

definition encode_size_to_lsb :: "cint \<Rightarrow> byte list \<Rightarrow> Status \<times> byte list" where
  "encode_size_to_lsb size' image_buffer =
     (e_success,
      fold (\<lambda>i buf. buf[i := embed_bit size' i (buf ! i)]) [0..<32] image_buffer)"

text \<open>
  \<^verbatim>\<open>decode_byte_from_lsb\<close> (\<^verbatim>\<open>decode.c\<close>):
  \<^verbatim>\<open>int bit = image_buffer[i] & 1; ch |= (unsigned char)(bit << i);\<close>
\<close>

definition decode_byte_from_lsb :: "byte list \<Rightarrow> Status \<times> byte" where
  "decode_byte_from_lsb image_buffer =
     (e_success,
      fold (\<lambda>i ch. ch OR ucast (push_bit i ((scast (image_buffer ! i) :: cint) AND 1)))
        [0..<8] 0)"

text \<open>
  \<^verbatim>\<open>decode_size_from_lsb\<close> (\<^verbatim>\<open>decode.c\<close>):
  \<^verbatim>\<open>int bit = buffer[i] & 1; value |= (bit << i);\<close>
\<close>

definition decode_size_from_lsb :: "byte list \<Rightarrow> Status \<times> cint" where
  "decode_size_from_lsb buffer =
     (e_success,
      fold (\<lambda>i value. value OR push_bit i ((scast (buffer ! i) :: cint) AND 1))
        [0..<32] 0)"

section \<open>Files as streams\<close>

text \<open>
  A \<^verbatim>\<open>FILE *\<close> is the content of the file and the current offset. The model has no
  device errors: \<^verbatim>\<open>fread\<close> is short only at the end of the file, \<^verbatim>\<open>fwrite\<close> writes
  all it is given and \<^verbatim>\<open>ferror\<close> is never set. The files named on the command line are
  taken to exist, so that every \<^verbatim>\<open>fopen\<close> of an input file succeeds and the \<^verbatim>\<open>NULL\<close>
  checks on pointers pass.
\<close>

record stream =
  bytes :: "byte list"
  offset :: nat

definition fopen_rb :: "byte list \<Rightarrow> stream" where
  "fopen_rb content = \<lparr>bytes = content, offset = 0\<rparr>"

definition fopen_wb :: stream where
  "fopen_wb = \<lparr>bytes = [], offset = 0\<rparr>"

definition fseek_set :: "nat \<Rightarrow> stream \<Rightarrow> stream" where
  "fseek_set n f = f\<lparr>offset := n\<rparr>"

definition rewind :: "stream \<Rightarrow> stream" where
  "rewind f = fseek_set 0 f"

text \<open>
  \<^verbatim>\<open>fread\<close> of \<open>n\<close> bytes: the bytes obtained (fewer than \<open>n\<close> at the end of the file)
  and the stream advanced by that many.
\<close>

definition fread :: "nat \<Rightarrow> stream \<Rightarrow> byte list \<times> stream" where
  "fread n f =
     (let got = take n (drop (offset f) (bytes f))
      in (got, f\<lparr>offset := offset f + length got\<rparr>))"

text \<open>
  The array after \<^verbatim>\<open>fread\<close> stored the bytes obtained at its start: on a short read
  the rest of the array keeps what it held.
\<close>

definition fill :: "byte list \<Rightarrow> byte list \<Rightarrow> byte list" where
  "fill buf got = got @ drop (length got) buf"

text \<open>\<^verbatim>\<open>fwrite\<close> at the current offset (a gap after a seek past the end reads as zeros).\<close>

definition fwrite :: "byte list \<Rightarrow> stream \<Rightarrow> stream" where
  "fwrite buf f =
     \<lparr>bytes = take (offset f) (bytes f @ replicate (offset f - length (bytes f)) 0)
               @ buf @ drop (offset f + length buf) (bytes f),
      offset = offset f + length buf\<rparr>"

section \<open>C string functions\<close>

text \<open>\<^verbatim>\<open>strstr\<close>: the suffix of the haystack at the first occurrence, \<open>None\<close> for \<^verbatim>\<open>NULL\<close>.\<close>

fun strstr :: "byte list \<Rightarrow> byte list \<Rightarrow> byte list option" where
  "strstr [] needle = (if needle = [] then Some [] else None)"
| "strstr (c # cs) needle =
     (if take (length needle) (c # cs) = needle then Some (c # cs) else strstr cs needle)"

text \<open>
  The first call \<^verbatim>\<open>strtok(s, delims)\<close>: skip leading delimiters; \<^verbatim>\<open>NULL\<close> when nothing is
  left, else the token up to the next delimiter. The result is the index in \<open>s\<close> at
  which the token starts (the pointer returned is \<^verbatim>\<open>s\<close> plus that index) and the token.
\<close>

definition strtok :: "byte list \<Rightarrow> byte list \<Rightarrow> (nat \<times> byte list) option" where
  "strtok s delims =
     (let k = length (takeWhile (\<lambda>c. c \<in> set delims) s);
          s' = drop k s
      in if s' = [] then None else Some (k, takeWhile (\<lambda>c. c \<notin> set delims) s'))"

section \<open>The encoder (\<^verbatim>\<open>encode.c\<close>)\<close>

text \<open>
  \<^verbatim>\<open>EncodeInfo\<close> is declared in \<^verbatim>\<open>encode.h\<close>, which is not among the sources. Its fields
  are the ones \<^verbatim>\<open>encode.c\<close> uses; \<open>size_secret_file\<close> is taken as a \<^verbatim>\<open>long\<close>, as in
  \<^verbatim>\<open>DecodeInfo\<close>. The capacity of the array \<open>extn_secret_file\<close> is a parameter \<open>cap\<close> of
  \<open>do_encoding\<close>.
\<close>

record EncodeInfo =
  secret_fname :: "byte list"
  fptr_src_image :: stream
  fptr_secret :: stream
  fptr_stego_image :: stream
  extn_secret_file :: "byte list"
  size_secret_file :: int

text \<open>The indeterminate initial contents of the encoder's local variables.\<close>

record enc_locals =
  l_width :: "nat \<Rightarrow> byte"
  l_height :: "nat \<Rightarrow> byte"
  l_header :: "nat \<Rightarrow> byte"
  l_magic :: "nat \<Rightarrow> byte"
  l_extn_size :: "nat \<Rightarrow> byte"
  l_extn :: "nat \<Rightarrow> byte"
  l_file_size :: "nat \<Rightarrow> byte"
  l_data :: "nat \<Rightarrow> nat \<Rightarrow> byte"

text \<open>A \<^verbatim>\<open>uint\<close> read by \<^verbatim>\<open>fread(&x, sizeof(int), 1, f)\<close> on a little-endian machine.\<close>

definition le32 :: "byte list \<Rightarrow> cint" where
  "le32 b = ucast (b ! 0) OR push_bit 8 (ucast (b ! 1)) OR push_bit 16 (ucast (b ! 2))
            OR push_bit 24 (ucast (b ! 3))"

definition get_image_size_for_bmp ::
    "(nat \<Rightarrow> byte) \<Rightarrow> (nat \<Rightarrow> byte) \<Rightarrow> stream \<Rightarrow> cint \<times> stream" where
  "get_image_size_for_bmp w0 h0 fptr_image =
     (let f = fseek_set 18 fptr_image;
          (got, f) = fread 4 f;
          width = le32 (fill (uninit 4 w0) got);
          (got, f) = fread 4 f;
          height = le32 (fill (uninit 4 h0) got)
      in (width * height * 3, f))"

text \<open>
  \<^verbatim>\<open>open_files\<close>: the source image and the secret file are opened for reading, the stego
  image is created empty.
\<close>

definition open_files :: "byte list \<Rightarrow> byte list \<Rightarrow> byte list \<Rightarrow> Status \<times> EncodeInfo" where
  "open_files src_image fname secret =
     (e_success,
      \<lparr>secret_fname = fname,
       fptr_src_image = fopen_rb src_image,
       fptr_secret = fopen_rb secret,
       fptr_stego_image = fopen_wb,
       extn_secret_file = [],
       size_secret_file = 0\<rparr>)"

text \<open>\<^verbatim>\<open>get_file_size\<close>: \<^verbatim>\<open>ftell\<close> at the end, converted to \<^verbatim>\<open>uint\<close>; the stream is rewound.\<close>

definition get_file_size :: "stream \<Rightarrow> cint \<times> stream" where
  "get_file_size fptr = (of_nat (length (bytes fptr)), rewind fptr)"

definition copy_bmp_header :: "(nat \<Rightarrow> byte) \<Rightarrow> stream \<Rightarrow> stream \<Rightarrow> Status \<times> stream \<times> stream" where
  "copy_bmp_header g fptr_src fptr_dest =
     (let src = fseek_set 0 fptr_src;
          dest = fseek_set 0 fptr_dest;
          (got, src) = fread 54 src;
          buffer = fill (uninit 54 g) got
      in (e_success, src, fwrite buffer dest))"

definition check_capacity :: "enc_locals \<Rightarrow> EncodeInfo \<Rightarrow> Status \<times> EncodeInfo" where
  "check_capacity L encInfo =
     (let (image_capacity, src) =
            get_image_size_for_bmp (l_width L) (l_height L) (fptr_src_image encInfo);
          (secret_file_size, sec) = get_file_size (fptr_secret encInfo);
          required_bytes = image_capacity div 8;
          encInfo = encInfo\<lparr>fptr_src_image := src, fptr_secret := sec\<rparr>
      in if required_bytes < secret_file_size + 14 then (e_failure, encInfo)
         else (e_success, encInfo))"

text \<open>
  \<^verbatim>\<open>encode_data_to_image\<close>: the array \<^verbatim>\<open>buffer[8]\<close> lives across the iterations; the
  result of \<^verbatim>\<open>fread\<close> is not looked at.
\<close>

fun encode_data_loop ::
    "byte list \<Rightarrow> byte list \<Rightarrow> stream \<Rightarrow> stream \<Rightarrow> Status \<times> stream \<times> stream" where
  "encode_data_loop [] buffer src stego = (e_success, src, stego)"
| "encode_data_loop (d # ds) buffer src stego =
     (let (got, src) = fread 8 src;
          buffer = fill buffer got;
          (st, buffer) = encode_byte_to_lsb d buffer
      in if st \<noteq> e_success then (e_failure, src, stego)
         else encode_data_loop ds buffer src (fwrite buffer stego))"

definition encode_data_to_image ::
    "(nat \<Rightarrow> byte) \<Rightarrow> byte list \<Rightarrow> nat \<Rightarrow> stream \<Rightarrow> stream \<Rightarrow> Status \<times> stream \<times> stream" where
  "encode_data_to_image g data size' fptr_src fptr_stego =
     encode_data_loop (take size' data) (uninit 8 g) fptr_src fptr_stego"

definition encode_magic_string ::
    "(nat \<Rightarrow> byte) \<Rightarrow> byte list \<Rightarrow> EncodeInfo \<Rightarrow> Status \<times> EncodeInfo" where
  "encode_magic_string g magic_string encInfo =
     (let (st, src, stego) =
            encode_data_to_image g magic_string (length magic_string)
              (fptr_src_image encInfo) (fptr_stego_image encInfo);
          encInfo = encInfo\<lparr>fptr_src_image := src, fptr_stego_image := stego\<rparr>
      in if st \<noteq> e_success then (e_failure, encInfo) else (e_success, encInfo))"

definition encode_secret_file_extn_size ::
    "(nat \<Rightarrow> byte) \<Rightarrow> cint \<Rightarrow> stream \<Rightarrow> stream \<Rightarrow> Status \<times> stream \<times> stream" where
  "encode_secret_file_extn_size g size' fptr_src fptr_stego =
     (let (got, src) = fread 32 fptr_src;
          arr = fill (uninit 32 g) got;
          (st, arr) = encode_size_to_lsb size' arr
      in (e_success, src, fwrite arr fptr_stego))"

definition encode_secret_file_extn ::
    "(nat \<Rightarrow> byte) \<Rightarrow> byte list \<Rightarrow> EncodeInfo \<Rightarrow> Status \<times> EncodeInfo" where
  "encode_secret_file_extn g file_extn encInfo =
     (let (st, src, stego) =
            encode_data_to_image g file_extn (length file_extn)
              (fptr_src_image encInfo) (fptr_stego_image encInfo);
          encInfo = encInfo\<lparr>fptr_src_image := src, fptr_stego_image := stego\<rparr>
      in if st \<noteq> e_success then (e_failure, encInfo) else (e_success, encInfo))"

text \<open>\<^verbatim>\<open>encode_secret_file_size(int file_size, ...)\<close>: a negative size is refused.\<close>

definition encode_secret_file_size ::
    "(nat \<Rightarrow> byte) \<Rightarrow> cint \<Rightarrow> EncodeInfo \<Rightarrow> Status \<times> EncodeInfo" where
  "encode_secret_file_size g file_size encInfo =
     (if sint file_size < 0 then (e_failure, encInfo)
      else
        (let (got, src) = fread 32 (fptr_src_image encInfo);
             arr = fill (uninit 32 g) got;
             (st, arr) = encode_size_to_lsb file_size arr
         in (e_success,
             encInfo\<lparr>fptr_src_image := src,
                      fptr_stego_image := fwrite arr (fptr_stego_image encInfo)\<rparr>)))"

text \<open>
  \<^verbatim>\<open>encode_secret_file_data\<close>: the loop
  \<^verbatim>\<open>while ((nread = fread(buffer, 1, 512, fptr_secret)) > 0)\<close>; the \<open>k\<close>-th call of
  \<^verbatim>\<open>encode_data_to_image\<close> gets the \<open>nread\<close> bytes just read and has its own
  uninitialised \<^verbatim>\<open>buffer[8]\<close>.
\<close>

function encode_secret_chunks ::
    "(nat \<Rightarrow> nat \<Rightarrow> byte) \<Rightarrow> nat \<Rightarrow> stream \<Rightarrow> stream \<Rightarrow> stream
       \<Rightarrow> Status \<times> stream \<times> stream \<times> stream" where
  "encode_secret_chunks g k sec src stego =
     (if length (fst (fread 512 sec)) > 0
      then
        (let (buffer, sec') = fread 512 sec;
             nread = length buffer;
             (st, src', stego') = encode_data_to_image (g k) buffer nread src stego
         in if st \<noteq> e_success then (e_failure, sec', src', stego')
            else encode_secret_chunks g (Suc k) (snd (fread 512 sec)) src' stego')
      else (e_success, snd (fread 512 sec), src, stego))"
  by pat_completeness auto
termination
  by (relation "measure (\<lambda>(g, k, sec, src, stego). length (bytes sec) - offset sec)")
     (auto simp add: fread_def Let_def)

definition encode_secret_file_data ::
    "(nat \<Rightarrow> nat \<Rightarrow> byte) \<Rightarrow> EncodeInfo \<Rightarrow> Status \<times> EncodeInfo" where
  "encode_secret_file_data g encInfo =
     (let (st, sec, src, stego) =
            encode_secret_chunks g 0 (rewind (fptr_secret encInfo))
              (fptr_src_image encInfo) (fptr_stego_image encInfo)
      in (st, encInfo\<lparr>fptr_secret := sec, fptr_src_image := src, fptr_stego_image := stego\<rparr>))"

text \<open>\<^verbatim>\<open>copy_remaining_img_data\<close>: 512 bytes at a time until \<^verbatim>\<open>fread\<close> returns 0.\<close>

function copy_remaining_img_data :: "stream \<Rightarrow> stream \<Rightarrow> Status \<times> stream \<times> stream" where
  "copy_remaining_img_data fptr_src fptr_dest =
     (if length (fst (fread 512 fptr_src)) > 0
      then copy_remaining_img_data (snd (fread 512 fptr_src))
             (fwrite (fst (fread 512 fptr_src)) fptr_dest)
      else (e_success, snd (fread 512 fptr_src), fptr_dest))"
  by pat_completeness auto
termination
  by (relation "measure (\<lambda>(src, dest). length (bytes src) - offset src)")
     (auto simp add: fread_def Let_def)

text \<open>
  A step of a pipeline: on \<open>e_failure\<close> the pipeline jumps to \<^verbatim>\<open>FAILURE_CLOSE\<close> and
  returns \<open>e_failure\<close> with the state reached. \<open>None\<close> stands for undefined behaviour
  of the C program (a \<^verbatim>\<open>NULL\<close> argument of \<^verbatim>\<open>strcpy\<close>, a write past the end of an array).
\<close>

definition on_success :: "Status \<times> 's \<Rightarrow> ('s \<Rightarrow> (Status \<times> 's) option) \<Rightarrow> (Status \<times> 's) option" where
  "on_success r k = (if fst r \<noteq> e_success then Some (e_failure, snd r) else k (snd r))"

definition lift3 :: "EncodeInfo \<Rightarrow> Status \<times> stream \<times> stream \<Rightarrow> Status \<times> EncodeInfo" where
  "lift3 encInfo r =
     (fst r, encInfo\<lparr>fptr_src_image := fst (snd r), fptr_stego_image := snd (snd r)\<rparr>)"

definition do_encoding ::
    "nat \<Rightarrow> enc_locals \<Rightarrow> byte list \<Rightarrow> byte list \<Rightarrow> byte list \<Rightarrow> (Status \<times> EncodeInfo) option" where
  "do_encoding cap L src_image fname secret =
     on_success (open_files src_image fname secret) (\<lambda>encInfo.
     let (sz, sec) = get_file_size (fptr_secret encInfo);
         encInfo = encInfo\<lparr>fptr_secret := sec, size_secret_file := uint sz\<rparr>
     in if size_secret_file encInfo \<le> 0 then Some (e_failure, encInfo) else
     on_success (check_capacity L encInfo) (\<lambda>encInfo.
     let encInfo = encInfo\<lparr>fptr_src_image := rewind (fptr_src_image encInfo)\<rparr> in
     on_success (lift3 encInfo (copy_bmp_header (l_header L)
                   (fptr_src_image encInfo) (fptr_stego_image encInfo))) (\<lambda>encInfo.
     on_success (encode_magic_string (l_magic L) MAGIC_STRING encInfo) (\<lambda>encInfo.
     case strstr (secret_fname encInfo) (ascii ''.'') of
       None \<Rightarrow> None
     | Some extn \<Rightarrow>
     if cap < length extn + 1 then None else
     let encInfo = encInfo\<lparr>extn_secret_file := extn\<rparr> in
     on_success (lift3 encInfo (encode_secret_file_extn_size (l_extn_size L)
                   (of_nat (length (extn_secret_file encInfo)))
                   (fptr_src_image encInfo) (fptr_stego_image encInfo))) (\<lambda>encInfo.
     on_success (encode_secret_file_extn (l_extn L) (extn_secret_file encInfo) encInfo) (\<lambda>encInfo.
     on_success (encode_secret_file_size (l_file_size L)
                   (of_int (size_secret_file encInfo)) encInfo) (\<lambda>encInfo.
     on_success (encode_secret_file_data (l_data L) encInfo) (\<lambda>encInfo.
     on_success (lift3 encInfo (copy_remaining_img_data
                   (fptr_src_image encInfo) (fptr_stego_image encInfo))) (\<lambda>encInfo.
     Some (e_success, encInfo))))))))))"


section \<open>The decoder (\<^verbatim>\<open>decode.c\<close>)\<close>

text \<open>
  \<^verbatim>\<open>DecodeInfo\<close> (\<^verbatim>\<open>decode.h\<close>). The output file is \<open>None\<close> while
  \<open>fptr_secret_out\<close> is \<^verbatim>\<open>NULL\<close>, and its name and stream once it has been created.
\<close>

record DecodeInfo =
  dec_fptr_stego_image :: stream
  output_fname :: "byte list option"
  fptr_secret_out :: "(byte list \<times> stream) option"
  dec_extn_secret_file :: "byte list"
  dec_size_secret_file :: int
  extn_size :: cint

text \<open>The indeterminate initial contents of the decoder's local variables.\<close>

record dec_locals =
  l_magic_buffer :: "nat \<Rightarrow> byte"
  l_extn_size_arr :: "nat \<Rightarrow> byte"
  l_size_arr :: "nat \<Rightarrow> byte"
  l_ch :: byte

text \<open>
  \<^verbatim>\<open>open_files_decode\<close>, on the structure that \<^verbatim>\<open>main\<close> has cleared with \<^verbatim>\<open>memset\<close> and
  \<^verbatim>\<open>read_and_validate_decode_args\<close> has filled: the stego image is opened and
  positioned after the 54 bytes of the header.
\<close>

definition open_files_decode :: "byte list \<Rightarrow> byte list option \<Rightarrow> Status \<times> DecodeInfo" where
  "open_files_decode stego_image out_name =
     (e_success,
      \<lparr>dec_fptr_stego_image = fseek_set 54 (fopen_rb stego_image),
       output_fname = out_name,
       fptr_secret_out = None,
       dec_extn_secret_file = replicate MAX_FILE_SUFFIX 0,
       dec_size_secret_file = 0,
       extn_size = 0\<rparr>)"

text \<open>
  \<^verbatim>\<open>decode_data_from_image\<close>: \<open>n\<close> iterations are left and \<open>i\<close> is the loop counter;
  a read of fewer than 8 bytes returns \<open>e_failure\<close>.
\<close>

fun decode_data_loop :: "nat \<Rightarrow> nat \<Rightarrow> byte list \<Rightarrow> stream \<Rightarrow> Status \<times> byte list \<times> stream" where
  "decode_data_loop 0 i data f = (e_success, data, f)"
| "decode_data_loop (Suc n) i data f =
     (let (buffer, f) = fread 8 f
      in if length buffer \<noteq> 8 then (e_failure, data, f)
         else decode_data_loop n (Suc i) (data[i := snd (decode_byte_from_lsb buffer)]) f)"

definition decode_data_from_image :: "byte list \<Rightarrow> int \<Rightarrow> stream \<Rightarrow> Status \<times> byte list \<times> stream" where
  "decode_data_from_image data size' fptr_stego = decode_data_loop (nat size') 0 data fptr_stego"

text \<open>
  \<^verbatim>\<open>decode_magic_string\<close>: \<^verbatim>\<open>char buffer[16]\<close> is not initialised, the first
  \<^verbatim>\<open>strlen(MAGIC_STRING)\<close> bytes are decoded into it, and \<^verbatim>\<open>strcmp(buffer, MAGIC_STRING)\<close>
  compares the C string found in the array with the literal.
\<close>

definition decode_magic_string :: "(nat \<Rightarrow> byte) \<Rightarrow> DecodeInfo \<Rightarrow> Status \<times> DecodeInfo" where
  "decode_magic_string g decInfo =
     (let len = int (length MAGIC_STRING);
          (st, buffer, f) =
            decode_data_from_image (uninit 16 g) len (dec_fptr_stego_image decInfo);
          decInfo = decInfo\<lparr>dec_fptr_stego_image := f\<rparr>
      in if st \<noteq> e_success then (e_failure, decInfo)
         else if cstr buffer \<noteq> MAGIC_STRING then (e_failure, decInfo)
         else (e_success, decInfo))"

text \<open>\<^verbatim>\<open>decode_file_extn_size\<close>: the result of \<^verbatim>\<open>fread\<close> is not looked at.\<close>

definition decode_file_extn_size :: "(nat \<Rightarrow> byte) \<Rightarrow> DecodeInfo \<Rightarrow> Status \<times> DecodeInfo" where
  "decode_file_extn_size g decInfo =
     (let (got, f) = fread 32 (dec_fptr_stego_image decInfo);
          arr = fill (uninit 32 g) got;
          (st, length') = decode_size_from_lsb arr;
          decInfo = decInfo\<lparr>dec_fptr_stego_image := f, extn_size := length'\<rparr>
      in if sint length' \<le> 0 \<or> sint length' > 10 then (e_failure, decInfo)
         else (e_success, decInfo))"

definition decode_secret_file_extn :: "DecodeInfo \<Rightarrow> Status \<times> DecodeInfo" where
  "decode_secret_file_extn decInfo =
     (let file_extn = sint (extn_size decInfo)
      in if file_extn \<le> 0 \<or> file_extn \<ge> int MAX_FILE_SUFFIX then (e_failure, decInfo)
         else
           (let (st, extn, f) =
                  decode_data_from_image (dec_extn_secret_file decInfo) file_extn
                    (dec_fptr_stego_image decInfo);
                decInfo = decInfo\<lparr>dec_extn_secret_file := extn, dec_fptr_stego_image := f\<rparr>
            in if st \<noteq> e_success then (e_failure, decInfo)
               else (e_success,
                     decInfo\<lparr>dec_extn_secret_file := extn[nat file_extn := 0]\<rparr>)))"

definition decode_secret_file_size :: "(nat \<Rightarrow> byte) \<Rightarrow> DecodeInfo \<Rightarrow> Status \<times> DecodeInfo" where
  "decode_secret_file_size g decInfo =
     (let (got, f) = fread 32 (dec_fptr_stego_image decInfo);
          arr = fill (uninit 32 g) got;
          (st, size') = decode_size_from_lsb arr
      in (e_success,
          decInfo\<lparr>dec_fptr_stego_image := f, dec_size_secret_file := sint size'\<rparr>))"

text \<open>
  \<^verbatim>\<open>decode_secret_file_data\<close>: the status of \<^verbatim>\<open>decode_data_from_image(&ch, 1, ...)\<close> is
  dropped and \<^verbatim>\<open>ch\<close> is written whatever it was; \<open>n\<close> iterations are left.
\<close>

fun decode_secret_loop :: "nat \<Rightarrow> byte \<Rightarrow> stream \<Rightarrow> stream \<Rightarrow> byte \<times> stream \<times> stream" where
  "decode_secret_loop 0 ch f out = (ch, f, out)"
| "decode_secret_loop (Suc n) ch f out =
     (let (st, d, f) = decode_data_from_image [ch] 1 f;
          ch = d ! 0
      in decode_secret_loop n ch f (fwrite [ch] out))"

definition decode_secret_file_data :: "byte \<Rightarrow> DecodeInfo \<Rightarrow> (Status \<times> DecodeInfo) option" where
  "decode_secret_file_data ch0 decInfo =
     (case fptr_secret_out decInfo of
        None \<Rightarrow> None
      | Some (name, out) \<Rightarrow>
          (let (ch, f, out) =
                 decode_secret_loop (nat (dec_size_secret_file decInfo)) ch0
                   (dec_fptr_stego_image decInfo) out
           in Some (e_success,
                    decInfo\<lparr>dec_fptr_stego_image := f, fptr_secret_out := Some (name, out)\<rparr>)))"

text \<open>
  The name of the output file, as \<^verbatim>\<open>do_decoding\<close> builds it in \<^verbatim>\<open>base[256]\<close>:
  \<^verbatim>\<open>strncpy\<close> keeps 255 characters of the name given, \<^verbatim>\<open>strtok(base, ".")\<close> takes its
  first token, and \<^verbatim>\<open>strcpy(base, token)\<close> moves the token to the front of \<^verbatim>\<open>base\<close>.
  The token and its terminator are \<open>length token + 1\<close> bytes, read from index \<open>k\<close> of
  \<^verbatim>\<open>base\<close> and written from index 0. When the name begins with periods, \<open>0 < k\<close>; the
  bytes read and the bytes written then overlap unless \<open>length token < k\<close>, and a
  \<^verbatim>\<open>strcpy\<close> between overlapping parts of one array is undefined behaviour: \<open>None\<close>.
  With \<open>k = 0\<close> the call is \<^verbatim>\<open>strcpy(base, base)\<close>: every byte is written with the value
  it has, and the model takes \<^verbatim>\<open>base\<close> as left the way \<^verbatim>\<open>strtok\<close> cut it.
\<close>

definition output_base :: "byte list option \<Rightarrow> byte list option" where
  "output_base out_name =
     (case out_name of
        None \<Rightarrow> Some (ascii ''decoded'')
      | Some name \<Rightarrow>
          if name = [] then Some (ascii ''decoded'')
          else
            (let base = take 255 name
             in case strtok base (ascii ''.'') of
                  Some (k, token) \<Rightarrow>
                    if token \<noteq> [] then
                      (if k = 0 \<or> length token < k then Some token else None)
                    else Some (ascii ''decoded'')
                | None \<Rightarrow> Some (ascii ''decoded'')))"

text \<open>
  \<^verbatim>\<open>do_decoding\<close>. \<open>creatable\<close> tells whether \<^verbatim>\<open>fopen(final_name, "wb")\<close> succeeds;
  \<^verbatim>\<open>final_name[256]\<close> has room for 255 characters.
\<close>

definition do_decoding ::
    "dec_locals \<Rightarrow> (byte list \<Rightarrow> bool) \<Rightarrow> byte list \<Rightarrow> byte list option
       \<Rightarrow> (Status \<times> DecodeInfo) option" where
  "do_decoding L creatable stego_image out_name =
     on_success (open_files_decode stego_image out_name) (\<lambda>decInfo.
     on_success (decode_magic_string (l_magic_buffer L) decInfo) (\<lambda>decInfo.
     on_success (decode_file_extn_size (l_extn_size_arr L) decInfo) (\<lambda>decInfo.
     on_success (decode_secret_file_extn decInfo) (\<lambda>decInfo.
     case output_base (output_fname decInfo) of
       None \<Rightarrow> None
     | Some base \<Rightarrow>
         (let final_name = base @ cstr (dec_extn_secret_file decInfo)
          in if 256 < length final_name + 1 then None
             else if \<not> creatable final_name then Some (e_failure, decInfo)
             else
               (let decInfo = decInfo\<lparr>fptr_secret_out := Some (final_name, fopen_wb)\<rparr>
                in on_success (decode_secret_file_size (l_size_arr L) decInfo) (\<lambda>decInfo.
                   Option.bind (decode_secret_file_data (l_ch L) decInfo) (\<lambda>r.
                   on_success r (\<lambda>decInfo. Some (e_success, decInfo))))))))))"

section \<open>The container layout, for stating properties\<close>

text \<open>What is left to read of a stream, and a stream positioned at its end.\<close>

definition rest :: "stream \<Rightarrow> byte list" where
  "rest f = drop (offset f) (bytes f)"

definition at_end :: "stream \<Rightarrow> bool" where
  "at_end f \<longleftrightarrow> offset f = length (bytes f)"

text \<open>
  The container is a sequence of fields: a data byte takes 8 carrier bytes, a 32-bit
  length takes 32. \<open>embed_fields fs cs\<close> is the carrier \<open>cs\<close> after the fields
  \<open>fs\<close> have been written into its least significant bits, one after the other.
\<close>

datatype field = Byte byte | Size cint

fun field_len :: "field \<Rightarrow> nat" where
  "field_len (Byte d) = 8"
| "field_len (Size v) = 32"

definition fields_len :: "field list \<Rightarrow> nat" where
  "fields_len fs = sum_list (map field_len fs)"

fun embed_fields :: "field list \<Rightarrow> byte list \<Rightarrow> byte list" where
  "embed_fields [] cs = []"
| "embed_fields (Byte d # fs) cs =
     snd (encode_byte_to_lsb d (take 8 cs)) @ embed_fields fs (drop 8 cs)"
| "embed_fields (Size v # fs) cs =
     snd (encode_size_to_lsb v (take 32 cs)) @ embed_fields fs (drop 32 cs)"

text \<open>
  The fields \<^verbatim>\<open>do_encoding\<close> writes, in its order: signature, length of the extension,
  extension, size of the secret file, content of the secret file.
\<close>

definition container :: "byte list \<Rightarrow> cint \<Rightarrow> byte list \<Rightarrow> field list" where
  "container extn size' secret =
     map Byte MAGIC_STRING @ [Size (of_nat (length extn))] @ map Byte extn
       @ [Size size'] @ map Byte secret"

section \<open>Auxiliary definitions for the statements and proofs\<close>

definition enc_step :: "field list \<Rightarrow> stream \<Rightarrow> stream \<Rightarrow> stream \<Rightarrow> stream \<Rightarrow> bool" where
  "enc_step fs src stego src' stego' \<longleftrightarrow>
     bytes src' = bytes src
   \<and> rest src' = drop (fields_len fs) (rest src)
   \<and> at_end stego'
   \<and> length (bytes stego') = length (bytes stego) + fields_len fs
   \<and> (\<forall>m \<le> length (bytes stego). take m (bytes stego') = take m (bytes stego))
   \<and> (fields_len fs \<le> length (rest src) \<longrightarrow>
        bytes stego' = bytes stego @ embed_fields fs (rest src))"

definition enc_k9 :: "EncodeInfo \<Rightarrow> (Status \<times> EncodeInfo) option" where
  "enc_k9 = (\<lambda>encInfo.
     on_success (lift3 encInfo (copy_remaining_img_data
                   (fptr_src_image encInfo) (fptr_stego_image encInfo))) (\<lambda>encInfo.
     Some (e_success, encInfo)))"

definition enc_k8 :: "enc_locals \<Rightarrow> EncodeInfo \<Rightarrow> (Status \<times> EncodeInfo) option" where
  "enc_k8 L = (\<lambda>encInfo. on_success (encode_secret_file_data (l_data L) encInfo) enc_k9)"

definition enc_k7 :: "enc_locals \<Rightarrow> EncodeInfo \<Rightarrow> (Status \<times> EncodeInfo) option" where
  "enc_k7 L = (\<lambda>encInfo.
     on_success (encode_secret_file_size (l_file_size L)
                   (of_int (size_secret_file encInfo)) encInfo) (enc_k8 L))"

definition enc_k6 :: "enc_locals \<Rightarrow> EncodeInfo \<Rightarrow> (Status \<times> EncodeInfo) option" where
  "enc_k6 L = (\<lambda>encInfo.
     on_success (encode_secret_file_extn (l_extn L) (extn_secret_file encInfo) encInfo)
       (enc_k7 L))"

definition enc_k5 :: "enc_locals \<Rightarrow> EncodeInfo \<Rightarrow> (Status \<times> EncodeInfo) option" where
  "enc_k5 L = (\<lambda>encInfo.
     on_success (lift3 encInfo (encode_secret_file_extn_size (l_extn_size L)
                   (of_nat (length (extn_secret_file encInfo)))
                   (fptr_src_image encInfo) (fptr_stego_image encInfo))) (enc_k6 L))"

definition enc_k4 :: "nat \<Rightarrow> enc_locals \<Rightarrow> EncodeInfo \<Rightarrow> (Status \<times> EncodeInfo) option" where
  "enc_k4 cap L = (\<lambda>encInfo.
     case strstr (secret_fname encInfo) (ascii ''.'') of
       None \<Rightarrow> None
     | Some extn \<Rightarrow>
     if cap < length extn + 1 then None else
     let encInfo = encInfo\<lparr>extn_secret_file := extn\<rparr> in enc_k5 L encInfo)"

definition enc_k3 :: "nat \<Rightarrow> enc_locals \<Rightarrow> EncodeInfo \<Rightarrow> (Status \<times> EncodeInfo) option" where
  "enc_k3 cap L = (\<lambda>encInfo.
     on_success (encode_magic_string (l_magic L) MAGIC_STRING encInfo) (enc_k4 cap L))"

definition enc_k2 :: "nat \<Rightarrow> enc_locals \<Rightarrow> EncodeInfo \<Rightarrow> (Status \<times> EncodeInfo) option" where
  "enc_k2 cap L = (\<lambda>encInfo.
     let encInfo = encInfo\<lparr>fptr_src_image := rewind (fptr_src_image encInfo)\<rparr> in
     on_success (lift3 encInfo (copy_bmp_header (l_header L)
                   (fptr_src_image encInfo) (fptr_stego_image encInfo))) (enc_k3 cap L))"

definition same_meta :: "EncodeInfo \<Rightarrow> EncodeInfo \<Rightarrow> bool" where
  "same_meta e e' \<longleftrightarrow>
     secret_fname e' = secret_fname e \<and> extn_secret_file e' = extn_secret_file e
   \<and> size_secret_file e' = size_secret_file e
   \<and> bytes (fptr_secret e') = bytes (fptr_secret e)"

definition stage_ok :: "field list \<Rightarrow> EncodeInfo \<Rightarrow> EncodeInfo \<Rightarrow> bool" where
  "stage_ok fs e e' \<longleftrightarrow>
     same_meta e e'
   \<and> enc_step fs (fptr_src_image e) (fptr_stego_image e) (fptr_src_image e') (fptr_stego_image e')"

definition enc_post :: "field list \<Rightarrow> EncodeInfo \<Rightarrow> EncodeInfo \<Rightarrow> bool" where
  "enc_post fs e e' \<longleftrightarrow>
     extn_secret_file e' = extn_secret_file e
   \<and> (\<exists>src1 stego1.
         enc_step fs (fptr_src_image e) (fptr_stego_image e) src1 stego1
       \<and> bytes (fptr_stego_image e') = bytes stego1 @ rest src1)"

definition size_ok :: "EncodeInfo \<Rightarrow> bool" where
  "size_ok e \<longleftrightarrow> 0 \<le> sint (of_int (size_secret_file e) :: cint)"

definition tail_fields :: "EncodeInfo \<Rightarrow> field list" where
  "tail_fields e =
     [Size (of_nat (length (extn_secret_file e)))] @ map Byte (extn_secret_file e)
       @ [Size (of_int (size_secret_file e))] @ map Byte (bytes (fptr_secret e))"

definition enc_opened :: "byte list \<Rightarrow> byte list \<Rightarrow> byte list \<Rightarrow> EncodeInfo" where
  "enc_opened cover fname secret =
     \<lparr>secret_fname = fname,
      fptr_src_image = fopen_rb cover,
      fptr_secret = fopen_rb secret,
      fptr_stego_image = fopen_wb,
      extn_secret_file = [],
      size_secret_file = uint (of_nat (length secret) :: cint)\<rparr>"

definition encoded_as :: "byte list \<Rightarrow> field list \<Rightarrow> byte list \<Rightarrow> bool" where
  "encoded_as cover fs stego \<longleftrightarrow>
     length stego = max (length cover) (54 + fields_len fs)
   \<and> drop (54 + fields_len fs) stego = drop (54 + fields_len fs) cover
   \<and> take (min 54 (length cover)) stego = take 54 cover
   \<and> (54 + fields_len fs \<le> length cover \<longrightarrow>
        stego = take 54 cover @ embed_fields fs (drop 54 cover)
                  @ drop (54 + fields_len fs) cover)"

text \<open>When the encoder succeeds, and what it has written then.\<close>

definition enc_accepts :: "nat \<Rightarrow> enc_locals \<Rightarrow> byte list \<Rightarrow> byte list \<Rightarrow> byte list \<Rightarrow> byte list \<Rightarrow> bool" where
  "enc_accepts cap L cover fname secret extn \<longleftrightarrow>
     0 < uint (of_nat (length secret) :: cint)
   \<and> 0 \<le> sint (of_nat (length secret) :: cint)
   \<and> fst (check_capacity L (enc_opened cover fname secret)) = e_success
   \<and> strstr fname (ascii ''.'') = Some extn
   \<and> length extn < cap"

definition bmp_width :: "byte list \<Rightarrow> cint" where
  "bmp_width img = le32 (take 4 (drop 18 img))"

definition bmp_height :: "byte list \<Rightarrow> cint" where
  "bmp_height img = le32 (take 4 (drop 22 img))"

definition bmp_image :: "nat \<Rightarrow> nat \<Rightarrow> byte \<Rightarrow> byte list" where
  "bmp_image w h p =
     replicate 18 0 @ [of_nat w, 0, 0, 0, of_nat h, 0, 0, 0] @ replicate 28 0
       @ replicate (w * h * 3) p"

definition dec_k5 :: "dec_locals \<Rightarrow> DecodeInfo \<Rightarrow> (Status \<times> DecodeInfo) option" where
  "dec_k5 L = (\<lambda>decInfo.
              Option.bind (decode_secret_file_data (l_ch L) decInfo) (\<lambda>r.
              on_success r (\<lambda>decInfo. Some (e_success, decInfo))))"

definition dec_k4 ::
    "dec_locals \<Rightarrow> (byte list \<Rightarrow> bool) \<Rightarrow> DecodeInfo \<Rightarrow> (Status \<times> DecodeInfo) option" where
  "dec_k4 L creatable = (\<lambda>decInfo.
     case output_base (output_fname decInfo) of
       None \<Rightarrow> None
     | Some base \<Rightarrow>
         (let final_name = base @ cstr (dec_extn_secret_file decInfo)
          in if 256 < length final_name + 1 then None
             else if \<not> creatable final_name then Some (e_failure, decInfo)
             else
               (let decInfo = decInfo\<lparr>fptr_secret_out := Some (final_name, fopen_wb)\<rparr>
                in on_success (decode_secret_file_size (l_size_arr L) decInfo) (dec_k5 L))))"

definition dec_k3 ::
    "dec_locals \<Rightarrow> (byte list \<Rightarrow> bool) \<Rightarrow> DecodeInfo \<Rightarrow> (Status \<times> DecodeInfo) option" where
  "dec_k3 L creatable = (\<lambda>decInfo.
     on_success (decode_secret_file_extn decInfo) (dec_k4 L creatable))"

definition dec_k2 ::
    "dec_locals \<Rightarrow> (byte list \<Rightarrow> bool) \<Rightarrow> DecodeInfo \<Rightarrow> (Status \<times> DecodeInfo) option" where
  "dec_k2 L creatable = (\<lambda>decInfo.
     on_success (decode_file_extn_size (l_extn_size_arr L) decInfo) (dec_k3 L creatable))"

definition dec_opened :: "byte list \<Rightarrow> byte list option \<Rightarrow> DecodeInfo" where
  "dec_opened stego_image out_name = snd (open_files_decode stego_image out_name)"

definition enc_locals0 :: enc_locals where
  "enc_locals0 =
     \<lparr>l_width = (\<lambda>i. 0), l_height = (\<lambda>i. 0), l_header = (\<lambda>i. 0), l_magic = (\<lambda>i. 0),
      l_extn_size = (\<lambda>i. 0), l_extn = (\<lambda>i. 0), l_file_size = (\<lambda>i. 0),
      l_data = (\<lambda>k i. 0)\<rparr>"

definition dec_locals0 :: dec_locals where
  "dec_locals0 =
     \<lparr>l_magic_buffer = (\<lambda>i. 0), l_extn_size_arr = (\<lambda>i. 0), l_size_arr = (\<lambda>i. 0), l_ch = 0\<rparr>"

definition decoded_signature :: "byte list \<Rightarrow> byte list" where
  "decoded_signature stego =
     map (\<lambda>k. snd (decode_byte_from_lsb (take 8 (drop (54 + 8 * k) stego))))
       [0..<length MAGIC_STRING]"

definition header_fields :: "byte list \<Rightarrow> cint \<Rightarrow> field list" where
  "header_fields extn size' =
     map Byte MAGIC_STRING @ [Size (of_nat (length extn))] @ map Byte extn @ [Size size']"

definition always_creatable :: "byte list \<Rightarrow> bool" where
  "always_creatable name = True"

definition dec_locals_garbage :: dec_locals where
  "dec_locals_garbage = dec_locals0\<lparr>l_magic_buffer := (\<lambda>i. 0x41)\<rparr>"

definition truncated_stego :: "byte list" where
  "truncated_stego =
     replicate 54 0 @ embed_fields (header_fields (ascii ''.txt'') 2) (replicate 112 0xFE)"

definition example_stego :: "byte list" where
  "example_stego =
     replicate 54 0
       @ embed_fields (container (ascii ''.txt'') 2 (ascii ''hi'')) (replicate 144 0xFE)"

definition before_first_period :: "byte list \<Rightarrow> byte list" where
  "before_first_period name = takeWhile (\<lambda>c. c \<noteq> 0x2E) name"

section \<open>Properties\<close>

lemma push_bit_and1_bit:
  fixes x :: "'a::len word"
  shows "bit (push_bit i (x AND 1)) j \<longleftrightarrow> j = i \<and> j < LENGTH('a) \<and> bit x 0"
  by (auto simp add: bit_push_bit_iff bit_and_iff bit_1_iff bit_exp_iff dest: bit_imp_le_length)

lemma embed_bit_bit:
  "i < 32 \<Longrightarrow>
   bit (embed_bit v i c) n \<longleftrightarrow> (if n = 0 then bit v i else n < 8 \<and> bit c n)"
  by (cases n)
     (auto simp add: embed_bit_def bit_word_ucast_iff bit_or_iff bit_and_iff bit_not_iff
       bit_word_scast_iff bit_signed_drop_bit_iff bit_1_iff
       dest: bit_imp_le_length)

lemma fold_update_length:
  "length (fold (\<lambda>i buf. buf[i := f i (buf ! i)]) [0..<n] xs) = length xs"
  by (induction n) simp_all

lemma fold_update_nth:
  "n \<le> length xs \<Longrightarrow>
   fold (\<lambda>i buf. buf[i := f i (buf ! i)]) [0..<n] xs ! j = (if j < n then f j (xs ! j) else xs ! j)"
proof (induction n)
  case 0
  then show ?case by simp
next
  case (Suc n)
  then show ?case
    by (auto simp add: fold_update_length nth_list_update less_Suc_eq)
qed

lemma fold_or_bit:
  fixes g :: "nat \<Rightarrow> 'a::len word"
  shows "bit (fold (\<lambda>i acc. acc OR g i) [0..<n] 0) j \<longleftrightarrow> (\<exists>i<n. bit (g i) j)"
  by (induction n) (auto simp add: bit_or_iff less_Suc_eq)

lemma decode_byte_bit:
  "bit (snd (decode_byte_from_lsb buf)) j \<longleftrightarrow> j < 8 \<and> bit (buf ! j) 0"
  unfolding decode_byte_from_lsb_def snd_conv fold_or_bit bit_word_ucast_iff push_bit_and1_bit
  by (auto simp add: bit_word_scast_iff)

lemma decode_size_bit:
  "bit (snd (decode_size_from_lsb buf)) j \<longleftrightarrow> j < 32 \<and> bit (buf ! j) 0"
  unfolding decode_size_from_lsb_def snd_conv fold_or_bit push_bit_and1_bit
  by (auto simp add: bit_word_scast_iff)

lemma encode_byte_nth:
  "8 \<le> length buf \<Longrightarrow>
   snd (encode_byte_to_lsb b buf) ! j =
     (if j < 8 then embed_bit (scast b) j (buf ! j) else buf ! j)"
  by (simp add: encode_byte_to_lsb_def fold_update_nth)

lemma encode_size_nth:
  "32 \<le> length buf \<Longrightarrow>
   snd (encode_size_to_lsb v buf) ! j =
     (if j < 32 then embed_bit v j (buf ! j) else buf ! j)"
  by (simp add: encode_size_to_lsb_def fold_update_nth)

lemma encode_byte_length [simp]: "length (snd (encode_byte_to_lsb b buf)) = length buf"
  by (simp add: encode_byte_to_lsb_def fold_update_length)

lemma encode_size_length [simp]: "length (snd (encode_size_to_lsb v buf)) = length buf"
  by (simp add: encode_size_to_lsb_def fold_update_length)

lemma scast_byte_bit: "j < 8 \<Longrightarrow> bit (scast (b :: byte) :: cint) j \<longleftrightarrow> bit b j"
  by (auto simp add: bit_word_scast_iff dest: bit_imp_le_length)

lemma decode_encode_byte:
  assumes "8 \<le> length buf"
  shows "snd (decode_byte_from_lsb (snd (encode_byte_to_lsb b buf))) = b"
proof (rule bit_word_eqI)
  fix j assume "j < LENGTH(8)"
  then have j: "j < 8" by simp
  with assms show "bit (snd (decode_byte_from_lsb (snd (encode_byte_to_lsb b buf)))) j = bit b j"
    by (simp add: decode_byte_bit encode_byte_nth embed_bit_bit scast_byte_bit)
qed

lemma decode_encode_size:
  assumes "32 \<le> length buf"
  shows "snd (decode_size_from_lsb (snd (encode_size_to_lsb v buf))) = v"
proof (rule bit_word_eqI)
  fix j assume "j < LENGTH(32)"
  then have j: "j < 32" by simp
  with assms show "bit (snd (decode_size_from_lsb (snd (encode_size_to_lsb v buf)))) j = bit v j"
    by (simp add: decode_size_bit encode_size_nth embed_bit_bit)
qed

lemma fread_fst: "fst (fread n f) = take n (rest f)"
  by (simp add: fread_def rest_def Let_def)

lemma fread_bytes: "bytes (snd (fread n f)) = bytes f"
  by (simp add: fread_def Let_def)

lemma fread_rest: "rest (snd (fread n f)) = drop n (rest f)"
  by (simp add: fread_def rest_def Let_def min_def add.commute)

lemma fread_eq: "fread n f = (take n (rest f), snd (fread n f))"
  by (simp add: fread_def rest_def Let_def)

lemma fwrite_at_end:
  "at_end f \<Longrightarrow> bytes (fwrite b f) = bytes f @ b"
  "at_end f \<Longrightarrow> at_end (fwrite b f)"
  by (simp_all add: fwrite_def at_end_def)

lemma fill_full: "length got = length buf \<Longrightarrow> fill buf got = got"
  by (simp add: fill_def)

lemma length_fill: "length got \<le> length buf \<Longrightarrow> length (fill buf got) = length buf"
  by (simp add: fill_def)

lemma length_uninit [simp]: "length (uninit n g) = n"
  by (simp add: uninit_def)

lemma fields_len_simps [simp]:
  "fields_len [] = 0"
  "fields_len (f # fs) = field_len f + fields_len fs"
  "fields_len (fs @ gs) = fields_len fs + fields_len gs"
  by (simp_all add: fields_len_def)

lemma fields_len_map_Byte [simp]: "fields_len (map Byte ds) = 8 * length ds"
  by (induction ds) simp_all

lemma embed_fields_append:
  "embed_fields (fs @ gs) cs = embed_fields fs cs @ embed_fields gs (drop (fields_len fs) cs)"
proof (induction fs arbitrary: cs)
  case Nil
  then show ?case by simp
next
  case (Cons f fs)
  then show ?case by (cases f) (simp_all add: add.commute)
qed

lemma length_embed_fields:
  "fields_len fs \<le> length cs \<Longrightarrow> length (embed_fields fs cs) = fields_len fs"
proof (induction fs arbitrary: cs)
  case Nil
  then show ?case by simp
next
  case (Cons f fs)
  then show ?case by (cases f) (simp_all add: min_def)
qed

lemma encode_byte_fst [simp]: "fst (encode_byte_to_lsb d buf) = e_success"
  by (simp add: encode_byte_to_lsb_def)

lemma encode_size_fst [simp]: "fst (encode_size_to_lsb d buf) = e_success"
  by (simp add: encode_size_to_lsb_def)

lemma take_rest_length: "n \<le> length (rest f) \<Longrightarrow> length (take n (rest f)) = n"
  by simp

text \<open>What one run of the loop of encode_data_to_image does to the two streams.\<close>

lemma encode_data_loop_effect:
  assumes "length buf = 8" and "at_end stego"
    and "encode_data_loop ds buf src stego = (st, src', stego')"
  shows "st = e_success \<and> bytes src' = bytes src
       \<and> rest src' = drop (8 * length ds) (rest src)
       \<and> at_end stego'
       \<and> length (bytes stego') = length (bytes stego) + 8 * length ds
       \<and> (\<forall>m \<le> length (bytes stego). take m (bytes stego') = take m (bytes stego))
       \<and> (8 * length ds \<le> length (rest src) \<longrightarrow>
            bytes stego' = bytes stego @ embed_fields (map Byte ds) (rest src))"
  using assms
proof (induction ds arbitrary: buf src stego)
  case Nil
  then show ?case by simp
next
  case (Cons d ds)
  define got where "got = take 8 (rest src)"
  define src1 where "src1 = snd (fread 8 src)"
  define buf1 where "buf1 = snd (encode_byte_to_lsb d (fill buf got))"
  define stego1 where "stego1 = fwrite buf1 stego"
  have fr: "fread 8 src = (got, src1)"
    unfolding got_def src1_def by (rule fread_eq)
  have enc: "encode_byte_to_lsb d (fill buf got) = (e_success, buf1)"
    unfolding buf1_def by (simp add: encode_byte_to_lsb_def)
  have lgot: "length got \<le> 8" by (simp add: got_def)
  have lbuf1: "length buf1 = 8"
    using Cons.prems(1) lgot by (simp add: buf1_def length_fill)
  have st1: "at_end stego1" "bytes stego1 = bytes stego @ buf1"
    using Cons.prems(2) by (simp_all add: stego1_def fwrite_at_end)
  have rec: "encode_data_loop ds buf1 src1 stego1 = (st, src', stego')"
    using Cons.prems(3) by (simp add: fr enc stego1_def)
  note IH = Cons.IH [OF lbuf1 st1(1) rec]
  have r1: "rest src1 = drop 8 (rest src)" "bytes src1 = bytes src"
    by (simp_all add: src1_def fread_rest fread_bytes)
  have content: "bytes stego' = bytes stego @ embed_fields (map Byte (d # ds)) (rest src)"
    if le: "8 * length (d # ds) \<le> length (rest src)"
  proof -
    have "length got = 8" using le by (simp add: got_def)
    then have "fill buf got = take 8 (rest src)"
      using Cons.prems(1) by (simp add: fill_full got_def)
    then have b1: "buf1 = snd (encode_byte_to_lsb d (take 8 (rest src)))"
      by (simp add: buf1_def)
    have "8 * length ds \<le> length (rest src1)" using le by (simp add: r1)
    with IH have "bytes stego' = bytes stego1 @ embed_fields (map Byte ds) (rest src1)"
      by blast
    then show ?thesis by (simp add: st1 b1 r1)
  qed
  have pre: "take m (bytes stego') = take m (bytes stego)" if "m \<le> length (bytes stego)" for m
  proof -
    have "m \<le> length (bytes stego1)" using that by (simp add: st1)
    with IH have "take m (bytes stego') = take m (bytes stego1)" by blast
    then show ?thesis using that by (simp add: st1)
  qed
  from IH content pre show ?case
    by (simp add: r1 st1 lbuf1 add.commute)
qed

lemma enc_step_Nil: "at_end stego \<Longrightarrow> enc_step [] src stego src stego"
  by (simp add: enc_step_def)

lemma enc_step_trans:
  assumes "enc_step fs a b a' b'" and "enc_step gs a' b' a'' b''"
  shows "enc_step (fs @ gs) a b a'' b''"
proof -
  have pre: "take m (bytes b'') = take m (bytes b)" if "m \<le> length (bytes b)" for m
  proof -
    have "m \<le> length (bytes b')" using that assms(1) by (simp add: enc_step_def)
    then have "take m (bytes b'') = take m (bytes b')"
      using assms(2) by (simp add: enc_step_def)
    also have "\<dots> = take m (bytes b)" using that assms(1) by (simp add: enc_step_def)
    finally show ?thesis .
  qed
  have content: "bytes b'' = bytes b @ embed_fields (fs @ gs) (rest a)"
    if le: "fields_len (fs @ gs) \<le> length (rest a)"
  proof -
    have 1: "bytes b' = bytes b @ embed_fields fs (rest a)"
      using le assms(1) by (simp add: enc_step_def)
    have "fields_len gs \<le> length (rest a')"
      using le assms(1) by (simp add: enc_step_def)
    then have "bytes b'' = bytes b' @ embed_fields gs (rest a')"
      using assms(2) by (simp add: enc_step_def)
    then show ?thesis
      using assms(1) by (simp add: 1 embed_fields_append enc_step_def)
  qed
  show ?thesis
    unfolding enc_step_def
    using assms pre content by (simp add: enc_step_def add.commute)
qed

lemma encode_data_to_image_effect:
  assumes "at_end stego"
    and "encode_data_to_image g data n src stego = (st, src', stego')"
  shows "st = e_success \<and> enc_step (map Byte (take n data)) src stego src' stego'"
  using encode_data_loop_effect [OF _ assms(1) assms(2) [unfolded encode_data_to_image_def]]
  by (simp add: enc_step_def)

lemma size_field_effect:
  assumes "at_end stego"
  shows "enc_step [Size v] src stego (snd (fread 32 src))
           (fwrite (snd (encode_size_to_lsb v (fill (uninit 32 g) (fst (fread 32 src))))) stego)"
proof -
  have l: "length (fst (fread 32 src)) \<le> 32" by (simp add: fread_fst)
  have full: "fill (uninit 32 g) (fst (fread 32 src)) = take 32 (rest src)"
    if "32 \<le> length (rest src)"
    using that by (simp add: fread_fst fill_full)
  show ?thesis
    unfolding enc_step_def using assms l
    by (auto simp add: fread_bytes fread_rest fwrite_at_end length_fill full)
qed

lemma encode_secret_file_extn_size_effect:
  assumes "at_end stego"
    and "encode_secret_file_extn_size g v src stego = (st, src', stego')"
  shows "st = e_success \<and> enc_step [Size v] src stego src' stego'"
proof -
  have "encode_secret_file_extn_size g v src stego =
      (e_success, snd (fread 32 src),
       fwrite (snd (encode_size_to_lsb v (fill (uninit 32 g) (fst (fread 32 src))))) stego)"
    by (simp add: encode_secret_file_extn_size_def Let_def split: prod.splits)
  with assms(2) size_field_effect [OF assms(1), of v src g] show ?thesis by simp
qed

declare encode_secret_chunks.simps [simp del]
declare copy_remaining_img_data.simps [simp del]

lemma encode_secret_chunks_effect:
  assumes "at_end stego"
    and "encode_secret_chunks g k sec src stego = (st, sec', src', stego')"
  shows "st = e_success \<and> bytes sec' = bytes sec
       \<and> enc_step (map Byte (rest sec)) src stego src' stego'"
  using assms
proof (induction g k sec src stego rule: encode_secret_chunks.induct)
  case (1 g k sec src stego)
  define got where "got = take 512 (rest sec)"
  define sec1 where "sec1 = snd (fread 512 sec)"
  have fr: "fread 512 sec = (got, sec1)"
    unfolding got_def sec1_def by (rule fread_eq)
  show ?case
  proof (cases "length got > 0")
    case False
    then have "rest sec = []" by (simp add: got_def)
    moreover have "encode_secret_chunks g k sec src stego = (e_success, sec1, src, stego)"
      using False by (subst encode_secret_chunks.simps) (simp add: fr)
    ultimately show ?thesis
      using "1.prems" by (auto simp add: enc_step_Nil sec1_def fread_bytes)
  next
    case True
    obtain st1 src1 stego1 where
      e1: "encode_data_to_image (g k) got (length got) src stego = (st1, src1, stego1)"
      by (cases "encode_data_to_image (g k) got (length got) src stego") auto
    from encode_data_to_image_effect [OF "1.prems"(1) e1]
    have s1: "st1 = e_success" and step1: "enc_step (map Byte got) src stego src1 stego1"
      by simp_all
    have ae1: "at_end stego1" using step1 by (simp add: enc_step_def)
    have rec: "encode_secret_chunks g (Suc k) sec1 src1 stego1 = (st, sec', src', stego')"
      using "1.prems"(2) True
      by (subst (asm) encode_secret_chunks.simps) (simp add: fr e1 s1)
    have pos: "0 < length (fst (fread 512 sec))" using True by (simp add: fr)
    have e1': "(st1, src1, stego1) = encode_data_to_image (g k) got (length got) src stego"
      by (simp add: e1)
    have IH: "st = e_success \<and> bytes sec' = bytes sec1
       \<and> enc_step (map Byte (rest sec1)) src1 stego1 src' stego'"
      using "1.IH" [OF pos refl fr [symmetric] refl refl e1' refl] s1 ae1 rec
      by (simp add: sec1_def)
    have "map Byte (rest sec) = map Byte got @ map Byte (rest sec1)"
      by (simp add: got_def sec1_def fread_rest flip: map_append)
    with enc_step_trans [OF step1] IH show ?thesis
      by (simp add: sec1_def fread_bytes)
  qed
qed

lemma copy_remaining_img_data_effect:
  assumes "at_end dest"
    and "copy_remaining_img_data src dest = (st, src', dest')"
  shows "st = e_success \<and> bytes dest' = bytes dest @ rest src \<and> at_end dest'"
  using assms
proof (induction src dest rule: copy_remaining_img_data.induct)
  case (1 src dest)
  show ?case
  proof (cases "length (fst (fread 512 src)) > 0")
    case False
    then have "rest src = []" by (simp add: fread_fst)
    moreover have "copy_remaining_img_data src dest = (e_success, snd (fread 512 src), dest)"
      using False by (subst copy_remaining_img_data.simps) simp
    ultimately show ?thesis using "1.prems" by auto
  next
    case True
    have rec: "copy_remaining_img_data (snd (fread 512 src)) (fwrite (fst (fread 512 src)) dest)
                 = (st, src', dest')"
      using "1.prems"(2) True by (subst (asm) copy_remaining_img_data.simps) simp
    have "at_end (fwrite (fst (fread 512 src)) dest)"
      using "1.prems"(1) by (simp add: fwrite_at_end)
    from "1.IH" [OF True this rec] show ?thesis
      using "1.prems"(1) by (simp add: fwrite_at_end fread_fst fread_rest)
  qed
qed

lemma do_encoding_tails:
  "do_encoding cap L src_image fname secret =
     on_success (open_files src_image fname secret) (\<lambda>encInfo.
     let (sz, sec) = get_file_size (fptr_secret encInfo);
         encInfo = encInfo\<lparr>fptr_secret := sec, size_secret_file := uint sz\<rparr>
     in if size_secret_file encInfo \<le> 0 then Some (e_failure, encInfo) else
     on_success (check_capacity L encInfo) (enc_k2 cap L))"
  unfolding do_encoding_def enc_k2_def enc_k3_def enc_k4_def enc_k5_def enc_k6_def
    enc_k7_def enc_k8_def enc_k9_def ..

lemma on_success_ok: "fst r = e_success \<Longrightarrow> on_success r k = k (snd r)"
  by (simp add: on_success_def)

lemma on_success_fail: "fst r \<noteq> e_success \<Longrightarrow> on_success r k = Some (e_failure, snd r)"
  by (simp add: on_success_def)

lemma stage_ok_at_end: "stage_ok fs e e' \<Longrightarrow> at_end (fptr_stego_image e')"
  by (simp add: stage_ok_def enc_step_def)

lemma enc_post_trans:
  assumes "stage_ok fs e e1" and "enc_post gs e1 e'"
  shows "enc_post (fs @ gs) e e'"
proof -
  from assms(2) obtain src1 stego1 where
    s: "enc_step gs (fptr_src_image e1) (fptr_stego_image e1) src1 stego1"
    and b: "bytes (fptr_stego_image e') = bytes stego1 @ rest src1"
    and x: "extn_secret_file e' = extn_secret_file e1"
    by (auto simp add: enc_post_def)
  from assms(1) have
    t: "enc_step fs (fptr_src_image e) (fptr_stego_image e) (fptr_src_image e1) (fptr_stego_image e1)"
    and y: "extn_secret_file e1 = extn_secret_file e"
    by (simp_all add: stage_ok_def same_meta_def)
  have "enc_step (fs @ gs) (fptr_src_image e) (fptr_stego_image e) src1 stego1"
    by (rule enc_step_trans [OF t s])
  with b x y show ?thesis
    unfolding enc_post_def by (intro conjI exI [of _ src1] exI [of _ stego1]) simp_all
qed

lemma encode_magic_string_stage:
  assumes "at_end (fptr_stego_image e)"
  shows "fst (encode_magic_string g m e) = e_success
       \<and> stage_ok (map Byte m) e (snd (encode_magic_string g m e))"
proof -
  obtain st src' stego' where
    r: "encode_data_to_image g m (length m) (fptr_src_image e) (fptr_stego_image e)
          = (st, src', stego')"
    by (cases "encode_data_to_image g m (length m) (fptr_src_image e) (fptr_stego_image e)") auto
  from encode_data_to_image_effect [OF assms r] show ?thesis
    by (simp add: encode_magic_string_def r stage_ok_def same_meta_def)
qed

lemma encode_secret_file_extn_stage:
  assumes "at_end (fptr_stego_image e)"
  shows "fst (encode_secret_file_extn g x e) = e_success
       \<and> stage_ok (map Byte x) e (snd (encode_secret_file_extn g x e))"
proof -
  obtain st src' stego' where
    r: "encode_data_to_image g x (length x) (fptr_src_image e) (fptr_stego_image e)
          = (st, src', stego')"
    by (cases "encode_data_to_image g x (length x) (fptr_src_image e) (fptr_stego_image e)") auto
  from encode_data_to_image_effect [OF assms r] show ?thesis
    by (simp add: encode_secret_file_extn_def r stage_ok_def same_meta_def)
qed

lemma encode_secret_file_extn_size_stage:
  fixes g v e
  defines "r \<equiv> lift3 e (encode_secret_file_extn_size g v (fptr_src_image e) (fptr_stego_image e))"
  assumes "at_end (fptr_stego_image e)"
  shows "fst r = e_success \<and> stage_ok [Size v] e (snd r)"
proof -
  obtain st src' stego' where
    q: "encode_secret_file_extn_size g v (fptr_src_image e) (fptr_stego_image e)
          = (st, src', stego')"
    by (cases "encode_secret_file_extn_size g v (fptr_src_image e) (fptr_stego_image e)") auto
  from encode_secret_file_extn_size_effect [OF assms(2) q] show ?thesis
    by (simp add: r_def lift3_def q stage_ok_def same_meta_def)
qed

lemma encode_secret_file_size_stage:
  assumes "at_end (fptr_stego_image e)" and "0 \<le> sint v"
  shows "fst (encode_secret_file_size g v e) = e_success
       \<and> stage_ok [Size v] e (snd (encode_secret_file_size g v e))"
  using assms size_field_effect [OF assms(1), of v "fptr_src_image e" g]
  by (simp add: encode_secret_file_size_def Let_def split_beta stage_ok_def same_meta_def)

lemma encode_secret_file_size_refused:
  "sint v < 0 \<Longrightarrow> encode_secret_file_size g v e = (e_failure, e)"
  by (simp add: encode_secret_file_size_def)

lemma rest_rewind [simp]: "rest (rewind f) = bytes f"
  by (simp add: rest_def rewind_def fseek_set_def)

lemma bytes_rewind [simp]: "bytes (rewind f) = bytes f"
  by (simp add: rewind_def fseek_set_def)

lemma encode_secret_file_data_stage:
  assumes "at_end (fptr_stego_image e)"
  shows "fst (encode_secret_file_data g e) = e_success
       \<and> stage_ok (map Byte (bytes (fptr_secret e))) e (snd (encode_secret_file_data g e))"
proof -
  obtain st sec' src' stego' where
    r: "encode_secret_chunks g 0 (rewind (fptr_secret e)) (fptr_src_image e) (fptr_stego_image e)
          = (st, sec', src', stego')"
    by (cases "encode_secret_chunks g 0 (rewind (fptr_secret e)) (fptr_src_image e)
                 (fptr_stego_image e)") auto
  from encode_secret_chunks_effect [OF assms r] show ?thesis
    by (simp add: encode_secret_file_data_def r stage_ok_def same_meta_def)
qed

lemma copy_remaining_stage:
  fixes e
  defines "r \<equiv> lift3 e (copy_remaining_img_data (fptr_src_image e) (fptr_stego_image e))"
  assumes "at_end (fptr_stego_image e)"
  shows "fst r = e_success \<and> extn_secret_file (snd r) = extn_secret_file e
       \<and> bytes (fptr_stego_image (snd r)) = bytes (fptr_stego_image e) @ rest (fptr_src_image e)"
proof -
  obtain st src' dest' where
    q: "copy_remaining_img_data (fptr_src_image e) (fptr_stego_image e) = (st, src', dest')"
    by (cases "copy_remaining_img_data (fptr_src_image e) (fptr_stego_image e)") auto
  from copy_remaining_img_data_effect [OF assms(2) q] show ?thesis
    by (simp add: r_def lift3_def q)
qed

lemma enc_k9_ok:
  assumes "at_end (fptr_stego_image e)"
  shows "\<exists>e'. enc_k9 e = Some (e_success, e') \<and> enc_post [] e e'"
proof -
  let ?r = "lift3 e (copy_remaining_img_data (fptr_src_image e) (fptr_stego_image e))"
  from copy_remaining_stage [OF assms] have
    ok: "fst ?r = e_success" and x: "extn_secret_file (snd ?r) = extn_secret_file e"
    and b: "bytes (fptr_stego_image (snd ?r)) = bytes (fptr_stego_image e) @ rest (fptr_src_image e)"
    by simp_all
  have "enc_k9 e = Some (e_success, snd ?r)"
    unfolding enc_k9_def by (simp add: on_success_ok [OF ok])
  moreover have "enc_post [] e (snd ?r)"
    unfolding enc_post_def using x b enc_step_Nil [OF assms] by blast
  ultimately show ?thesis by blast
qed

lemma enc_k8_ok:
  assumes "at_end (fptr_stego_image e)"
  shows "\<exists>e'. enc_k8 L e = Some (e_success, e')
            \<and> enc_post (map Byte (bytes (fptr_secret e))) e e'"
proof -
  let ?r = "encode_secret_file_data (l_data L) e"
  from encode_secret_file_data_stage [OF assms] have
    ok: "fst ?r = e_success" and st: "stage_ok (map Byte (bytes (fptr_secret e))) e (snd ?r)"
    by simp_all
  from enc_k9_ok [OF stage_ok_at_end [OF st]] obtain e' where
    k: "enc_k9 (snd ?r) = Some (e_success, e')" and p: "enc_post [] (snd ?r) e'" by blast
  have "enc_k8 L e = Some (e_success, e')"
    unfolding enc_k8_def by (simp add: on_success_ok [OF ok] k)
  moreover from enc_post_trans [OF st p]
  have "enc_post (map Byte (bytes (fptr_secret e))) e e'" by simp
  ultimately show ?thesis by blast
qed

lemma enc_k7_ok:
  assumes "at_end (fptr_stego_image e)" and "size_ok e"
  shows "\<exists>e'. enc_k7 L e = Some (e_success, e')
            \<and> enc_post ([Size (of_int (size_secret_file e))]
                          @ map Byte (bytes (fptr_secret e))) e e'"
proof -
  let ?r = "encode_secret_file_size (l_file_size L) (of_int (size_secret_file e)) e"
  from encode_secret_file_size_stage [OF assms(1) assms(2) [unfolded size_ok_def]] have
    ok: "fst ?r = e_success" and st: "stage_ok [Size (of_int (size_secret_file e))] e (snd ?r)"
    by simp_all
  from enc_k8_ok [OF stage_ok_at_end [OF st]] obtain e' where
    k: "enc_k8 L (snd ?r) = Some (e_success, e')"
    and p: "enc_post (map Byte (bytes (fptr_secret (snd ?r)))) (snd ?r) e'" by blast
  have m: "bytes (fptr_secret (snd ?r)) = bytes (fptr_secret e)"
    using st by (simp add: stage_ok_def same_meta_def)
  have "enc_k7 L e = Some (e_success, e')"
    unfolding enc_k7_def by (simp add: on_success_ok [OF ok] k)
  moreover from enc_post_trans [OF st p]
  have "enc_post ([Size (of_int (size_secret_file e))] @ map Byte (bytes (fptr_secret e))) e e'"
    by (simp add: m)
  ultimately show ?thesis by blast
qed

lemma enc_k7_refused:
  assumes "\<not> size_ok e"
  shows "enc_k7 L e = Some (e_failure, e)"
proof -
  have "sint (of_int (size_secret_file e) :: cint) < 0"
    using assms by (simp add: size_ok_def)
  then show ?thesis
    unfolding enc_k7_def by (simp add: encode_secret_file_size_refused on_success_def)
qed

lemma stage_ok_size_ok: "stage_ok fs e e1 \<Longrightarrow> size_ok e1 = size_ok e"
  by (simp add: stage_ok_def same_meta_def size_ok_def)

lemma enc_k6_ok:
  assumes "at_end (fptr_stego_image e)" and "size_ok e"
  shows "\<exists>e'. enc_k6 L e = Some (e_success, e')
            \<and> enc_post (map Byte (extn_secret_file e)
                          @ [Size (of_int (size_secret_file e))]
                          @ map Byte (bytes (fptr_secret e))) e e'"
proof -
  let ?r = "encode_secret_file_extn (l_extn L) (extn_secret_file e) e"
  from encode_secret_file_extn_stage [OF assms(1)] have
    ok: "fst ?r = e_success" and st: "stage_ok (map Byte (extn_secret_file e)) e (snd ?r)"
    by simp_all
  have so: "size_ok (snd ?r)" using stage_ok_size_ok [OF st] assms(2) by simp
  from enc_k7_ok [OF stage_ok_at_end [OF st] so] obtain e' where
    k: "enc_k7 L (snd ?r) = Some (e_success, e')"
    and p: "enc_post ([Size (of_int (size_secret_file (snd ?r)))]
                        @ map Byte (bytes (fptr_secret (snd ?r)))) (snd ?r) e'" by blast
  have m: "bytes (fptr_secret (snd ?r)) = bytes (fptr_secret e)"
      "size_secret_file (snd ?r) = size_secret_file e"
    using st by (simp_all add: stage_ok_def same_meta_def)
  have "enc_k6 L e = Some (e_success, e')"
    unfolding enc_k6_def by (simp add: on_success_ok [OF ok] k)
  moreover from enc_post_trans [OF st p]
  have "enc_post (map Byte (extn_secret_file e) @ [Size (of_int (size_secret_file e))]
                   @ map Byte (bytes (fptr_secret e))) e e'"
    by (simp add: m)
  ultimately show ?thesis by blast
qed

lemma enc_k6_refused:
  assumes "at_end (fptr_stego_image e)" and "\<not> size_ok e"
  shows "\<exists>e'. enc_k6 L e = Some (e_failure, e')"
proof -
  let ?r = "encode_secret_file_extn (l_extn L) (extn_secret_file e) e"
  from encode_secret_file_extn_stage [OF assms(1)] have
    ok: "fst ?r = e_success" and st: "stage_ok (map Byte (extn_secret_file e)) e (snd ?r)"
    by simp_all
  have so: "\<not> size_ok (snd ?r)" using stage_ok_size_ok [OF st] assms(2) by simp
  show ?thesis
    unfolding enc_k6_def by (simp add: on_success_ok [OF ok] enc_k7_refused [OF so])
qed

lemma enc_k5_ok:
  assumes "at_end (fptr_stego_image e)" and "size_ok e"
  shows "\<exists>e'. enc_k5 L e = Some (e_success, e') \<and> enc_post (tail_fields e) e e'"
proof -
  let ?r = "lift3 e (encode_secret_file_extn_size (l_extn_size L)
              (of_nat (length (extn_secret_file e))) (fptr_src_image e) (fptr_stego_image e))"
  from encode_secret_file_extn_size_stage [OF assms(1)] have
    ok: "fst ?r = e_success"
    and st: "stage_ok [Size (of_nat (length (extn_secret_file e)))] e (snd ?r)"
    by simp_all
  have so: "size_ok (snd ?r)" using stage_ok_size_ok [OF st] assms(2) by simp
  from enc_k6_ok [OF stage_ok_at_end [OF st] so] obtain e' where
    k: "enc_k6 L (snd ?r) = Some (e_success, e')"
    and p: "enc_post (map Byte (extn_secret_file (snd ?r))
                        @ [Size (of_int (size_secret_file (snd ?r)))]
                        @ map Byte (bytes (fptr_secret (snd ?r)))) (snd ?r) e'" by blast
  have m: "bytes (fptr_secret (snd ?r)) = bytes (fptr_secret e)"
      "size_secret_file (snd ?r) = size_secret_file e"
      "extn_secret_file (snd ?r) = extn_secret_file e"
    using st by (simp_all add: stage_ok_def same_meta_def)
  have "enc_k5 L e = Some (e_success, e')"
    unfolding enc_k5_def by (simp add: on_success_ok [OF ok] k)
  moreover from enc_post_trans [OF st p]
  have "enc_post (tail_fields e) e e'"
    by (simp add: m tail_fields_def)
  ultimately show ?thesis by blast
qed

lemma enc_k5_refused:
  assumes "at_end (fptr_stego_image e)" and "\<not> size_ok e"
  shows "\<exists>e'. enc_k5 L e = Some (e_failure, e')"
proof -
  let ?r = "lift3 e (encode_secret_file_extn_size (l_extn_size L)
              (of_nat (length (extn_secret_file e))) (fptr_src_image e) (fptr_stego_image e))"
  from encode_secret_file_extn_size_stage [OF assms(1)] have
    ok: "fst ?r = e_success"
    and st: "stage_ok [Size (of_nat (length (extn_secret_file e)))] e (snd ?r)"
    by simp_all
  have so: "\<not> size_ok (snd ?r)" using stage_ok_size_ok [OF st] assms(2) by simp
  from enc_k6_refused [OF stage_ok_at_end [OF st] so] show ?thesis
    unfolding enc_k5_def by (simp add: on_success_ok [OF ok])
qed

lemma enc_k4_ok:
  assumes "at_end (fptr_stego_image e)" and "size_ok e"
    and "strstr (secret_fname e) (ascii ''.'') = Some extn" and "length extn < cap"
  shows "\<exists>e'. enc_k4 cap L e = Some (e_success, e')
            \<and> enc_post (tail_fields (e\<lparr>extn_secret_file := extn\<rparr>))
                 (e\<lparr>extn_secret_file := extn\<rparr>) e'"
proof -
  let ?e = "e\<lparr>extn_secret_file := extn\<rparr>"
  have "at_end (fptr_stego_image ?e)" "size_ok ?e"
    using assms(1,2) by (simp_all add: size_ok_def)
  from enc_k5_ok [OF this] obtain e' where
    "enc_k5 L ?e = Some (e_success, e')" "enc_post (tail_fields ?e) ?e e'" by blast
  then show ?thesis
    unfolding enc_k4_def using assms(3,4) by simp
qed

lemma enc_k4_only_if:
  assumes "at_end (fptr_stego_image e)" and "enc_k4 cap L e = Some (e_success, e')"
  shows "size_ok e \<and> (\<exists>extn. strstr (secret_fname e) (ascii ''.'') = Some extn \<and> length extn < cap)"
proof (cases "strstr (secret_fname e) (ascii ''.'')")
  case None
  with assms(2) show ?thesis by (simp add: enc_k4_def)
next
  case (Some extn)
  let ?e = "e\<lparr>extn_secret_file := extn\<rparr>"
  show ?thesis
  proof (cases "cap < length extn + 1")
    case True
    with assms(2) Some show ?thesis by (simp add: enc_k4_def)
  next
    case False
    then have k: "enc_k5 L ?e = Some (e_success, e')"
      using assms(2) Some by (simp add: enc_k4_def)
    have ae: "at_end (fptr_stego_image ?e)" using assms(1) by simp
    have "size_ok ?e"
    proof (rule ccontr)
      assume "\<not> size_ok ?e"
      from enc_k5_refused [OF ae this, of L] k show False by auto
    qed
    then show ?thesis using Some False by (simp add: size_ok_def)
  qed
qed

lemma enc_k3_ok:
  assumes "at_end (fptr_stego_image e)" and "size_ok e"
    and "strstr (secret_fname e) (ascii ''.'') = Some extn" and "length extn < cap"
  shows "\<exists>e'. enc_k3 cap L e = Some (e_success, e') \<and> extn_secret_file e' = extn
            \<and> enc_post (map Byte MAGIC_STRING @ tail_fields (e\<lparr>extn_secret_file := extn\<rparr>))
                 (e\<lparr>extn_secret_file := extn\<rparr>) e'"
proof -
  let ?r = "encode_magic_string (l_magic L) MAGIC_STRING e"
  let ?e1 = "snd ?r"
  from encode_magic_string_stage [OF assms(1)] have
    ok: "fst ?r = e_success" and st: "stage_ok (map Byte MAGIC_STRING) e ?e1"
    by simp_all
  have m: "secret_fname ?e1 = secret_fname e" "size_secret_file ?e1 = size_secret_file e"
      "bytes (fptr_secret ?e1) = bytes (fptr_secret e)"
    using st by (simp_all add: stage_ok_def same_meta_def)
  have so: "size_ok ?e1" using stage_ok_size_ok [OF st] assms(2) by simp
  have ss: "strstr (secret_fname ?e1) (ascii ''.'') = Some extn" using assms(3) m by simp
  from enc_k4_ok [OF stage_ok_at_end [OF st] so ss assms(4)] obtain e' where
    k: "enc_k4 cap L ?e1 = Some (e_success, e')"
    and p: "enc_post (tail_fields (?e1\<lparr>extn_secret_file := extn\<rparr>))
              (?e1\<lparr>extn_secret_file := extn\<rparr>) e'" by blast
  have st': "stage_ok (map Byte MAGIC_STRING) (e\<lparr>extn_secret_file := extn\<rparr>)
               (?e1\<lparr>extn_secret_file := extn\<rparr>)"
    using st by (simp add: stage_ok_def same_meta_def)
  have tf: "tail_fields (?e1\<lparr>extn_secret_file := extn\<rparr>)
              = tail_fields (e\<lparr>extn_secret_file := extn\<rparr>)"
    by (simp add: tail_fields_def m)
  have "enc_k3 cap L e = Some (e_success, e')"
    unfolding enc_k3_def by (simp add: on_success_ok [OF ok] k)
  moreover from enc_post_trans [OF st' p]
  have "enc_post (map Byte MAGIC_STRING @ tail_fields (e\<lparr>extn_secret_file := extn\<rparr>))
          (e\<lparr>extn_secret_file := extn\<rparr>) e'"
    by (simp add: tf)
  moreover have "extn_secret_file e' = extn" using p by (simp add: enc_post_def)
  ultimately show ?thesis by blast
qed

lemma enc_k3_only_if:
  assumes "at_end (fptr_stego_image e)" and "enc_k3 cap L e = Some (e_success, e')"
  shows "size_ok e \<and> (\<exists>extn. strstr (secret_fname e) (ascii ''.'') = Some extn \<and> length extn < cap)"
proof -
  let ?r = "encode_magic_string (l_magic L) MAGIC_STRING e"
  from encode_magic_string_stage [OF assms(1)] have
    ok: "fst ?r = e_success" and st: "stage_ok (map Byte MAGIC_STRING) e (snd ?r)"
    by simp_all
  have k: "enc_k4 cap L (snd ?r) = Some (e_success, e')"
    using assms(2) unfolding enc_k3_def by (simp add: on_success_ok [OF ok])
  from enc_k4_only_if [OF stage_ok_at_end [OF st] k] stage_ok_size_ok [OF st] st
  show ?thesis by (simp add: stage_ok_def same_meta_def)
qed

lemma check_capacity_frame:
  "secret_fname (snd (check_capacity L e)) = secret_fname e"
  "fptr_stego_image (snd (check_capacity L e)) = fptr_stego_image e"
  "extn_secret_file (snd (check_capacity L e)) = extn_secret_file e"
  "size_secret_file (snd (check_capacity L e)) = size_secret_file e"
  "bytes (fptr_secret (snd (check_capacity L e))) = bytes (fptr_secret e)"
  "bytes (fptr_src_image (snd (check_capacity L e))) = bytes (fptr_src_image e)"
  by (simp_all add: check_capacity_def get_image_size_for_bmp_def get_file_size_def Let_def
        split_beta fread_bytes fseek_set_def)

lemma header_stage:
  fixes g e
  defines "e0 \<equiv> e\<lparr>fptr_src_image := rewind (fptr_src_image e)\<rparr>"
  defines "r \<equiv> lift3 e0 (copy_bmp_header g (fptr_src_image e0) (fptr_stego_image e0))"
  assumes "fptr_stego_image e = fopen_wb"
  shows "fst r = e_success" and "same_meta e (snd r)"
    and "bytes (fptr_src_image (snd r)) = bytes (fptr_src_image e)"
    and "rest (fptr_src_image (snd r)) = drop 54 (bytes (fptr_src_image e))"
    and "at_end (fptr_stego_image (snd r))"
    and "bytes (fptr_stego_image (snd r))
           = fill (uninit 54 g) (take 54 (bytes (fptr_src_image e)))"
proof -
  have r: "r = (e_success,
      e0\<lparr>fptr_src_image := snd (fread 54 (fseek_set 0 (rewind (fptr_src_image e)))),
          fptr_stego_image :=
            fwrite (fill (uninit 54 g) (fst (fread 54 (fseek_set 0 (rewind (fptr_src_image e))))))
              (fseek_set 0 fopen_wb)\<rparr>)"
    by (simp add: r_def e0_def lift3_def copy_bmp_header_def Let_def split_beta assms(3))
  have z: "rest (fseek_set 0 (rewind (fptr_src_image e))) = bytes (fptr_src_image e)"
    by (simp add: rest_def fseek_set_def rewind_def)
  have w: "at_end (fseek_set 0 fopen_wb)" "bytes (fseek_set 0 fopen_wb) = []"
    by (simp_all add: at_end_def fseek_set_def fopen_wb_def)
  show "fst r = e_success" by (simp add: r)
  show "same_meta e (snd r)" by (simp add: r e0_def same_meta_def)
  show "bytes (fptr_src_image (snd r)) = bytes (fptr_src_image e)"
    by (simp add: r fread_bytes fseek_set_def rewind_def)
  show "rest (fptr_src_image (snd r)) = drop 54 (bytes (fptr_src_image e))"
    by (simp add: r fread_rest z)
  show "at_end (fptr_stego_image (snd r))"
    by (simp add: r fwrite_at_end w)
  show "bytes (fptr_stego_image (snd r))
           = fill (uninit 54 g) (take 54 (bytes (fptr_src_image e)))"
    by (simp add: r fwrite_at_end w fread_fst z)
qed

lemma encoded_asI:
  assumes step: "enc_step fs srcH stegoH src1 stego1"
    and rH: "rest srcH = drop 54 cover"
    and bH: "bytes stegoH = fill (uninit 54 g) (take 54 cover)"
    and fin: "stego = bytes stego1 @ rest src1"
  shows "encoded_as cover fs stego"
proof -
  let ?n = "fields_len fs"
  have lH: "length (bytes stegoH) = 54" by (simp add: bH length_fill)
  have l1: "length (bytes stego1) = 54 + ?n"
    using step lH by (simp add: enc_step_def)
  have r1: "rest src1 = drop (54 + ?n) cover"
    using step rH by (simp add: enc_step_def add.commute)
  have pre: "take (min 54 (length cover)) (bytes stegoH) = take 54 cover"
    by (simp add: bH fill_def min_def)
  have "take (min 54 (length cover)) (bytes stego1) = take (min 54 (length cover)) (bytes stegoH)"
    using step lH by (simp add: enc_step_def)
  then have p: "take (min 54 (length cover)) stego = take 54 cover"
    using pre l1 by (simp add: fin)
  have c: "stego = take 54 cover @ embed_fields fs (drop 54 cover) @ drop (54 + ?n) cover"
    if "54 + ?n \<le> length cover"
  proof -
    have "bytes stegoH = take 54 cover" using that by (simp add: bH fill_full)
    moreover have "?n \<le> length (rest srcH)" using that by (simp add: rH)
    ultimately have "bytes stego1 = take 54 cover @ embed_fields fs (drop 54 cover)"
      using step by (simp add: enc_step_def rH)
    then show ?thesis by (simp add: fin r1)
  qed
  show ?thesis
    unfolding encoded_as_def using l1 r1 p c by (auto simp add: fin)
qed

lemma tail_fields_same_meta:
  "same_meta e e1 \<Longrightarrow>
   tail_fields (e1\<lparr>extn_secret_file := x\<rparr>) = tail_fields (e\<lparr>extn_secret_file := x\<rparr>)"
  by (simp add: tail_fields_def same_meta_def)

lemma enc_k2_ok:
  assumes "fptr_stego_image e = fopen_wb" and "size_ok e"
    and "strstr (secret_fname e) (ascii ''.'') = Some extn" and "length extn < cap"
  shows "\<exists>e'. enc_k2 cap L e = Some (e_success, e') \<and> extn_secret_file e' = extn
            \<and> encoded_as (bytes (fptr_src_image e))
                 (map Byte MAGIC_STRING @ tail_fields (e\<lparr>extn_secret_file := extn\<rparr>))
                 (bytes (fptr_stego_image e'))"
proof -
  let ?e0 = "e\<lparr>fptr_src_image := rewind (fptr_src_image e)\<rparr>"
  let ?r = "lift3 ?e0 (copy_bmp_header (l_header L) (fptr_src_image ?e0) (fptr_stego_image ?e0))"
  let ?eh = "snd ?r"
  note h = header_stage [OF assms(1), of "l_header L"]
  have m: "secret_fname ?eh = secret_fname e" "size_secret_file ?eh = size_secret_file e"
      "bytes (fptr_secret ?eh) = bytes (fptr_secret e)"
    using h(2) by (simp_all add: same_meta_def)
  have so: "size_ok ?eh" using assms(2) m by (simp add: size_ok_def)
  have ss: "strstr (secret_fname ?eh) (ascii ''.'') = Some extn" using assms(3) m by simp
  from enc_k3_ok [OF h(5) so ss assms(4)] obtain e' where
    k: "enc_k3 cap L ?eh = Some (e_success, e')" and x: "extn_secret_file e' = extn"
    and p: "enc_post (map Byte MAGIC_STRING @ tail_fields (?eh\<lparr>extn_secret_file := extn\<rparr>))
              (?eh\<lparr>extn_secret_file := extn\<rparr>) e'" by blast
  have tf: "tail_fields (?eh\<lparr>extn_secret_file := extn\<rparr>)
              = tail_fields (e\<lparr>extn_secret_file := extn\<rparr>)"
    by (rule tail_fields_same_meta [OF h(2)])
  from p obtain src1 stego1 where
    s: "enc_step (map Byte MAGIC_STRING @ tail_fields (e\<lparr>extn_secret_file := extn\<rparr>))
          (fptr_src_image ?eh) (fptr_stego_image ?eh) src1 stego1"
    and b: "bytes (fptr_stego_image e') = bytes stego1 @ rest src1"
    unfolding enc_post_def tf by auto
  have "enc_k2 cap L e = Some (e_success, e')"
    unfolding enc_k2_def Let_def by (simp only: on_success_ok [OF h(1)] k)
  moreover have "encoded_as (bytes (fptr_src_image e))
       (map Byte MAGIC_STRING @ tail_fields (e\<lparr>extn_secret_file := extn\<rparr>))
       (bytes (fptr_stego_image e'))"
    by (rule encoded_asI [OF s h(4) h(6) b])
  ultimately show ?thesis using x by blast
qed

lemma enc_k2_only_if:
  assumes "fptr_stego_image e = fopen_wb" and "enc_k2 cap L e = Some (e_success, e')"
  shows "size_ok e \<and> (\<exists>extn. strstr (secret_fname e) (ascii ''.'') = Some extn \<and> length extn < cap)"
proof -
  let ?e0 = "e\<lparr>fptr_src_image := rewind (fptr_src_image e)\<rparr>"
  let ?r = "lift3 ?e0 (copy_bmp_header (l_header L) (fptr_src_image ?e0) (fptr_stego_image ?e0))"
  note h = header_stage [OF assms(1), of "l_header L"]
  have k: "enc_k3 cap L (snd ?r) = Some (e_success, e')"
    using assms(2) unfolding enc_k2_def Let_def by (simp only: on_success_ok [OF h(1)])
  from enc_k3_only_if [OF h(5) k] h(2) show ?thesis
    by (simp add: same_meta_def size_ok_def)
qed

lemma do_encoding_opened:
  "do_encoding cap L cover fname secret =
     (if size_secret_file (enc_opened cover fname secret) \<le> 0
      then Some (e_failure, enc_opened cover fname secret)
      else on_success (check_capacity L (enc_opened cover fname secret)) (enc_k2 cap L))"
  by (simp add: do_encoding_tails on_success_def open_files_def get_file_size_def
        enc_opened_def Let_def rewind_def fseek_set_def fopen_rb_def)

lemma do_encoding_if:
  assumes "enc_accepts cap L cover fname secret extn"
  shows "\<exists>e. do_encoding cap L cover fname secret = Some (e_success, e)
           \<and> extn_secret_file e = extn
           \<and> encoded_as cover (container extn (of_nat (length secret)) secret)
               (bytes (fptr_stego_image e))"
proof -
  let ?e1 = "enc_opened cover fname secret"
  let ?e2 = "snd (check_capacity L ?e1)"
  from assms have pos: "\<not> size_secret_file ?e1 \<le> 0"
    and ok: "fst (check_capacity L ?e1) = e_success"
    and ss: "strstr fname (ascii ''.'') = Some extn" and lc: "length extn < cap"
    and sg: "0 \<le> sint (of_nat (length secret) :: cint)"
    by (simp_all add: enc_accepts_def enc_opened_def)
  have f: "fptr_stego_image ?e2 = fopen_wb" "secret_fname ?e2 = fname"
      "size_secret_file ?e2 = uint (of_nat (length secret) :: cint)"
      "bytes (fptr_secret ?e2) = secret" "bytes (fptr_src_image ?e2) = cover"
    by (simp_all add: check_capacity_frame) (simp_all add: enc_opened_def fopen_rb_def)
  have so: "size_ok ?e2" using sg by (simp add: size_ok_def f)
  have ss2: "strstr (secret_fname ?e2) (ascii ''.'') = Some extn" using ss by (simp add: f)
  from enc_k2_ok [OF f(1) so ss2 lc, of L] obtain e where
    k: "enc_k2 cap L ?e2 = Some (e_success, e)" and x: "extn_secret_file e = extn"
    and en: "encoded_as (bytes (fptr_src_image ?e2))
               (map Byte MAGIC_STRING @ tail_fields (?e2\<lparr>extn_secret_file := extn\<rparr>))
               (bytes (fptr_stego_image e))" by blast
  have c: "map Byte MAGIC_STRING @ tail_fields (?e2\<lparr>extn_secret_file := extn\<rparr>)
             = container extn (of_nat (length secret)) secret"
    by (simp add: tail_fields_def container_def f)
  have "do_encoding cap L cover fname secret = Some (e_success, e)"
    using pos by (simp add: do_encoding_opened on_success_ok [OF ok] k)
  with x en show ?thesis by (auto simp add: c f)
qed

lemma do_encoding_only_if:
  assumes "do_encoding cap L cover fname secret = Some (e_success, e)"
  shows "\<exists>extn. enc_accepts cap L cover fname secret extn"
proof -
  let ?e1 = "enc_opened cover fname secret"
  let ?e2 = "snd (check_capacity L ?e1)"
  have pos: "\<not> size_secret_file ?e1 \<le> 0"
    using assms by (auto simp add: do_encoding_opened split: if_splits)
  then have os: "on_success (check_capacity L ?e1) (enc_k2 cap L) = Some (e_success, e)"
    using assms by (simp add: do_encoding_opened)
  have ok: "fst (check_capacity L ?e1) = e_success"
    using os by (cases "fst (check_capacity L ?e1)") (simp_all add: on_success_def)
  have k: "enc_k2 cap L ?e2 = Some (e_success, e)"
    using os by (simp add: on_success_ok [OF ok])
  have f: "fptr_stego_image ?e2 = fopen_wb" "secret_fname ?e2 = fname"
      "size_secret_file ?e2 = uint (of_nat (length secret) :: cint)"
    by (simp_all add: check_capacity_frame) (simp_all add: enc_opened_def)
  from enc_k2_only_if [OF f(1) k] obtain extn where
    so: "size_ok ?e2" and ss: "strstr (secret_fname ?e2) (ascii ''.'') = Some extn"
    and lc: "length extn < cap" by blast
  have 1: "0 \<le> sint (of_nat (length secret) :: cint)"
    using so unfolding size_ok_def f by simp
  have 2: "strstr fname (ascii ''.'') = Some extn" using ss unfolding f .
  have "uint (of_nat (length secret) :: cint) \<noteq> 0"
    using pos by (simp add: enc_opened_def)
  moreover have "0 \<le> uint (of_nat (length secret) :: cint)" by simp
  ultimately have 3: "0 < uint (of_nat (length secret) :: cint)" by linarith
  show ?thesis
    unfolding enc_accepts_def using 1 2 3 lc ok by blast
qed

lemma do_encoding_success:
  assumes "do_encoding cap L cover fname secret = Some (e_success, e)"
  shows "\<exists>extn. enc_accepts cap L cover fname secret extn
           \<and> extn_secret_file e = extn
           \<and> encoded_as cover (container extn (of_nat (length secret)) secret)
               (bytes (fptr_stego_image e))"
proof -
  from do_encoding_only_if [OF assms] obtain extn where
    a: "enc_accepts cap L cover fname secret extn" by blast
  from do_encoding_if [OF a] assms a show ?thesis by auto
qed

lemma get_image_size_full:
  assumes "26 \<le> length (bytes f)"
  shows "fst (get_image_size_for_bmp w0 h0 f) = bmp_width (bytes f) * bmp_height (bytes f) * 3"
proof -
  have 1: "fst (fread 4 (fseek_set 18 f)) = take 4 (drop 18 (bytes f))"
    by (simp add: fread_def fseek_set_def Let_def)
  have 2: "fst (fread 4 (snd (fread 4 (fseek_set 18 f)))) = take 4 (drop 22 (bytes f))"
    using assms by (simp add: fread_def fseek_set_def Let_def min_def)
  have 3: "fill (uninit 4 w0) (take 4 (drop 18 (bytes f))) = take 4 (drop 18 (bytes f))"
    by (rule fill_full) (use assms in simp)
  have 4: "fill (uninit 4 h0) (take 4 (drop 22 (bytes f))) = take 4 (drop 22 (bytes f))"
    by (rule fill_full) (use assms in simp)
  show ?thesis
    unfolding get_image_size_for_bmp_def Let_def split_beta fst_conv 1 2 3 4 bmp_width_def
      bmp_height_def ..
qed

lemma check_capacity_status:
  "fst (check_capacity L e) = e_success \<longleftrightarrow>
     \<not> fst (get_image_size_for_bmp (l_width L) (l_height L) (fptr_src_image e)) div 8
         < of_nat (length (bytes (fptr_secret e))) + 14"
  by (simp add: check_capacity_def Let_def split_beta get_file_size_def)

lemma check_capacity_nat:
  assumes "26 \<le> length (bytes (fptr_src_image e))"
    and "unat (bmp_width (bytes (fptr_src_image e))) * unat (bmp_height (bytes (fptr_src_image e))) * 3
           < 2 ^ 32"
    and "length (bytes (fptr_secret e)) + 14 < 2 ^ 32"
  shows "fst (check_capacity L e) = e_success \<longleftrightarrow>
           length (bytes (fptr_secret e)) + 14
             \<le> (unat (bmp_width (bytes (fptr_src_image e)))
                  * unat (bmp_height (bytes (fptr_src_image e))) * 3) div 8"
proof -
  let ?w = "bmp_width (bytes (fptr_src_image e))"
  let ?h = "bmp_height (bytes (fptr_src_image e))"
  let ?S = "length (bytes (fptr_secret e))"
  have "unat ?w * unat ?h < 2 ^ 32" using assms(2) by simp
  then have wh: "unat (?w * ?h) = unat ?w * unat ?h"
    by (simp add: unat_word_ariths)
  have c: "unat (?w * ?h * 3) = unat ?w * unat ?h * 3"
    using assms(2) by (simp add: unat_word_ariths wh)
  have d: "unat (?w * ?h * 3 div 8) = unat ?w * unat ?h * 3 div 8"
    by (simp add: unat_div c)
  have s: "unat (of_nat ?S + 14 :: cint) = ?S + 14"
    using assms(3) by (simp add: unat_word_ariths unat_of_nat)
  show ?thesis
    unfolding check_capacity_status get_image_size_full [OF assms(1)] word_less_nat_alt d s
    by auto
qed

lemma le32_bytes [simp]: "le32 [of_nat w, 0, 0, 0] = ucast (of_nat w :: byte)"
  by (simp add: le32_def)

lemma bmp_image_geometry:
  "bmp_width (bmp_image w h p) = ucast (of_nat w :: byte)"
  "bmp_height (bmp_image w h p) = ucast (of_nat h :: byte)"
  "length (bmp_image w h p) = 54 + w * h * 3"
  by (simp_all add: bmp_width_def bmp_height_def bmp_image_def)

lemma t1: "unat (bmp_width (bmp_image 8 6 0xFE)) = 8"
  by (simp add: bmp_image_geometry)

lemma rest_advance: "rest (f\<lparr>offset := offset f + k\<rparr>) = drop k (rest f)"
  by (simp add: rest_def add.commute)

lemma fread_full:
  "n \<le> length (rest f) \<Longrightarrow> fread n f = (take n (rest f), f\<lparr>offset := offset f + n\<rparr>)"
  by (simp add: fread_def rest_def Let_def min_def)

lemma fread_short:
  "length (rest f) < n \<Longrightarrow> length (fst (fread n f)) \<noteq> n"
  by (simp add: fread_fst)

lemma advance_advance:
  "f\<lparr>offset := offset f + a\<rparr>\<lparr>offset := offset (f\<lparr>offset := offset f + a\<rparr>) + b\<rparr>
     = f\<lparr>offset := offset f + (a + b)\<rparr>"
  by simp

text \<open>Reading back fields that were embedded.\<close>

lemma decode_data_loop_embedded:
  assumes "rest f = embed_fields (map Byte ds @ gs) cs @ tail"
    and "fields_len (map Byte ds @ gs) \<le> length cs"
    and "i + length ds \<le> length data"
  shows "decode_data_loop (length ds) i data f =
           (e_success, take i data @ ds @ drop (i + length ds) data,
            f\<lparr>offset := offset f + 8 * length ds\<rparr>)"
  using assms
proof (induction ds arbitrary: i data f cs)
  case Nil
  then show ?case by simp
next
  case (Cons d ds)
  let ?B = "snd (encode_byte_to_lsb d (take 8 cs))"
  have l8: "8 \<le> length cs" using Cons.prems(2) by simp
  then have lB: "length ?B = 8" by simp
  have r: "rest f = ?B @ embed_fields (map Byte ds @ gs) (drop 8 cs) @ tail"
    using Cons.prems(1) by simp
  have fr: "fread 8 f = (?B, f\<lparr>offset := offset f + 8\<rparr>)"
    using fread_full [of 8 f] lB by (simp add: r)
  have dec: "snd (decode_byte_from_lsb ?B) = d"
    by (rule decode_encode_byte) (use l8 in simp)
  let ?f1 = "f\<lparr>offset := offset f + 8\<rparr>"
  have r1: "rest ?f1 = embed_fields (map Byte ds @ gs) (drop 8 cs) @ tail"
    using lB by (simp add: rest_advance r)
  have l1: "fields_len (map Byte ds @ gs) \<le> length (drop 8 cs)"
    using Cons.prems(2) by simp
  have i: "i < length data" using Cons.prems(3) by simp
  have d1: "Suc i + length ds \<le> length (data[i := d])" using Cons.prems(3) by simp
  note IH = Cons.IH [OF r1 l1 d1]
  have t: "take (Suc i) (data[i := d]) = take i data @ [d]"
    using i by (simp add: take_Suc_conv_app_nth)
  have "decode_data_loop (length (d # ds)) i data f
          = decode_data_loop (length ds) (Suc i) (data[i := d]) ?f1"
    using lB by (simp add: fr dec)
  also have "\<dots> = (e_success, take (Suc i) (data[i := d]) @ ds
                       @ drop (Suc i + length ds) (data[i := d]),
                     ?f1\<lparr>offset := offset ?f1 + 8 * length ds\<rparr>)"
    by (rule IH)
  finally show ?case by (simp add: t)
qed

lemma size_field_embedded:
  assumes "rest f = embed_fields (Size v # gs) cs @ tail"
    and "fields_len (Size v # gs) \<le> length cs"
  shows "fread 32 f = (snd (encode_size_to_lsb v (take 32 cs)), f\<lparr>offset := offset f + 32\<rparr>)"
    and "snd (decode_size_from_lsb (fill (uninit 32 g) (fst (fread 32 f)))) = v"
    and "rest (f\<lparr>offset := offset f + 32\<rparr>) = embed_fields gs (drop 32 cs) @ tail"
proof -
  let ?B = "snd (encode_size_to_lsb v (take 32 cs))"
  have l32: "32 \<le> length cs" using assms(2) by simp
  then have lB: "length ?B = 32" by simp
  have r: "rest f = ?B @ embed_fields gs (drop 32 cs) @ tail"
    using assms(1) by simp
  show fr: "fread 32 f = (?B, f\<lparr>offset := offset f + 32\<rparr>)"
    using fread_full [of 32 f] lB by (simp add: r)
  have "fill (uninit 32 g) ?B = ?B" by (rule fill_full) (use l32 in simp)
  moreover have "snd (decode_size_from_lsb ?B) = v"
    by (rule decode_encode_size) (use l32 in simp)
  ultimately show "snd (decode_size_from_lsb (fill (uninit 32 g) (fst (fread 32 f)))) = v"
    by (simp add: fr)
  show "rest (f\<lparr>offset := offset f + 32\<rparr>) = embed_fields gs (drop 32 cs) @ tail"
    using lB by (simp add: rest_advance r)
qed

lemma decode_secret_loop_embedded:
  assumes "rest f = embed_fields (map Byte ds @ gs) cs @ tail"
    and "fields_len (map Byte ds @ gs) \<le> length cs"
    and "at_end out"
  shows "decode_secret_loop (length ds) ch f out =
           (last (ch # ds), f\<lparr>offset := offset f + 8 * length ds\<rparr>,
            \<lparr>bytes = bytes out @ ds, offset = length (bytes out @ ds)\<rparr>)"
  using assms
proof (induction ds arbitrary: ch f out cs)
  case Nil
  then show ?case by (simp add: at_end_def)
next
  case (Cons d ds)
  have one: "decode_data_loop (length [d]) 0 [ch] f
               = (e_success, take 0 [ch] @ [d] @ drop (0 + length [d]) [ch],
                  f\<lparr>offset := offset f + 8 * length [d]\<rparr>)"
    by (rule decode_data_loop_embedded [where gs = "map Byte ds @ gs" and cs = cs and tail = tail])
       (use Cons.prems in simp_all)
  let ?f1 = "f\<lparr>offset := offset f + 8\<rparr>"
  let ?o1 = "fwrite [d] out"
  have dd: "decode_data_from_image [ch] 1 f = (e_success, [d], ?f1)"
    using one by (simp add: decode_data_from_image_def)
  let ?B = "snd (encode_byte_to_lsb d (take 8 cs))"
  have l8: "8 \<le> length cs" using Cons.prems(2) by simp
  then have lB: "length ?B = 8" by simp
  have r1: "rest ?f1 = embed_fields (map Byte ds @ gs) (drop 8 cs) @ tail"
    using lB Cons.prems(1) by (simp add: rest_advance)
  have l1: "fields_len (map Byte ds @ gs) \<le> length (drop 8 cs)"
    using Cons.prems(2) by simp
  have o1: "at_end ?o1" "bytes ?o1 = bytes out @ [d]"
    using Cons.prems(3) by (simp_all add: fwrite_at_end)
  note IH = Cons.IH [OF r1 l1 o1(1), of d]
  have "decode_secret_loop (length (d # ds)) ch f out = decode_secret_loop (length ds) d ?f1 ?o1"
    by (simp add: dd)
  also note IH
  finally show ?case by (simp add: o1)
qed

lemma do_decoding_tails:
  "do_decoding L creatable stego_image out_name =
     on_success (decode_magic_string (l_magic_buffer L) (dec_opened stego_image out_name))
       (dec_k2 L creatable)"
proof -
  have "do_decoding L creatable stego_image out_name =
     on_success (open_files_decode stego_image out_name) (\<lambda>decInfo.
     on_success (decode_magic_string (l_magic_buffer L) decInfo) (dec_k2 L creatable))"
    unfolding do_decoding_def dec_k2_def dec_k3_def dec_k4_def dec_k5_def ..
  also have "\<dots> = on_success (decode_magic_string (l_magic_buffer L)
                        (dec_opened stego_image out_name)) (dec_k2 L creatable)"
    by (rule trans [OF on_success_ok]) (simp_all add: open_files_decode_def dec_opened_def)
  finally show ?thesis .
qed

lemma rest_dec_opened:
  "rest (dec_fptr_stego_image (dec_opened stego out_name)) = drop 54 stego"
  "bytes (dec_fptr_stego_image (dec_opened stego out_name)) = stego"
  "offset (dec_fptr_stego_image (dec_opened stego out_name)) = 54"
  "fptr_secret_out (dec_opened stego out_name) = None"
  "output_fname (dec_opened stego out_name) = out_name"
  "dec_extn_secret_file (dec_opened stego out_name) = replicate 5 0"
  by (simp_all add: dec_opened_def open_files_decode_def rest_def fseek_set_def fopen_rb_def
        MAX_FILE_SUFFIX_def)

text \<open>The two bytes decoded into the comparison buffer, and what strcmp sees.\<close>

lemma cstr_two:
  "cstr (b0 # b1 # xs) = MAGIC_STRING \<longleftrightarrow> b0 = 0x23 \<and> b1 = 0x2A \<and> (xs = [] \<or> hd xs = 0)"
  by (cases xs) (auto simp add: cstr_def MAGIC_STRING_def)

lemma uninit_16_updated:
  "(uninit 16 g)[0 := b0, Suc 0 := b1] = b0 # b1 # map g [2..<16]"
proof -
  have "[0..<16] = 0 # 1 # [2..<16]" by (simp add: upt_rec)
  then show ?thesis by (simp add: uninit_def)
qed

lemma decode_magic_string_read:
  assumes "16 \<le> length (rest (dec_fptr_stego_image d))"
  defines "f \<equiv> dec_fptr_stego_image d"
  defines "b0 \<equiv> snd (decode_byte_from_lsb (take 8 (rest f)))"
  defines "b1 \<equiv> snd (decode_byte_from_lsb (take 8 (drop 8 (rest f))))"
  shows "decode_magic_string g d =
          (if b0 = 0x23 \<and> b1 = 0x2A \<and> g 2 = 0 then e_success else e_failure,
           d\<lparr>dec_fptr_stego_image := f\<lparr>offset := offset f + 16\<rparr>\<rparr>)"
proof -
  have 1: "fread 8 f = (take 8 (rest f), f\<lparr>offset := offset f + 8\<rparr>)"
    by (rule fread_full) (use assms(1) in \<open>simp add: f_def\<close>)
  have 2: "fread 8 (f\<lparr>offset := offset f + 8\<rparr>)
             = (take 8 (drop 8 (rest f)), f\<lparr>offset := offset f + 16\<rparr>)"
    using fread_full [of 8 "f\<lparr>offset := offset f + 8\<rparr>"] assms(1)
    by (simp add: rest_advance f_def)
  have l: "length (take 8 (rest f)) = 8" "length (take 8 (drop 8 (rest f))) = 8"
    using assms(1) by (simp_all add: f_def)
  have loop: "decode_data_loop (Suc (Suc 0)) 0 (uninit 16 g) f
          = (e_success, (uninit 16 g)[0 := b0, Suc 0 := b1], f\<lparr>offset := offset f + 16\<rparr>)"
    using l by (simp add: 1 2 b0_def b1_def del: length_take)
  have n: "nat (int (length MAGIC_STRING)) = Suc (Suc 0)" by (simp add: MAGIC_STRING_def)
  have hd: "hd (map g [2..<16]) = g 2" by (simp add: upt_rec)
  have ne: "map g [2..<16] \<noteq> []" by simp
  show ?thesis
    unfolding decode_magic_string_def decode_data_from_image_def n Let_def
    by (simp add: loop uninit_16_updated cstr_two hd ne del: decode_data_loop.simps flip: f_def)
qed

lemma decode_magic_string_frame:
  "fptr_secret_out (snd (decode_magic_string g d)) = fptr_secret_out d"
  "output_fname (snd (decode_magic_string g d)) = output_fname d"
  "dec_extn_secret_file (snd (decode_magic_string g d)) = dec_extn_secret_file d"
  by (simp_all add: decode_magic_string_def Let_def split_beta)

lemma Status_not_success: "st \<noteq> e_success \<longleftrightarrow> st = e_failure"
  by (cases st) simp_all

lemma decode_byte_fst [simp]: "fst (decode_byte_from_lsb buf) = e_success"
  by (simp add: decode_byte_from_lsb_def)

lemma decode_size_fst [simp]: "fst (decode_size_from_lsb buf) = e_success"
  by (simp add: decode_size_from_lsb_def)

text \<open>
  C2. A byte packed into an 8-byte carrier is unpacked unchanged, whatever the carrier
  held, and so is a 32-bit value packed into a 32-byte carrier; bit \<open>i\<close> of the value is
  the least significant bit of carrier byte \<open>i\<close>.
\<close>

theorem bit_codec_round_trip:
  assumes "length carrier8 = 8" and "length carrier32 = 32"
  shows "decode_byte_from_lsb (snd (encode_byte_to_lsb b carrier8)) = (e_success, b)
       \<and> (\<forall>i<8. bit (snd (encode_byte_to_lsb b carrier8) ! i) 0 = bit b i)
       \<and> decode_size_from_lsb (snd (encode_size_to_lsb v carrier32)) = (e_success, v)
       \<and> (\<forall>i<32. bit (snd (encode_size_to_lsb v carrier32) ! i) 0 = bit v i)"
proof -
  have 1: "decode_byte_from_lsb (snd (encode_byte_to_lsb b carrier8)) = (e_success, b)"
    using decode_encode_byte [of carrier8 b] assms(1) by (simp add: prod_eq_iff)
  have 2: "decode_size_from_lsb (snd (encode_size_to_lsb v carrier32)) = (e_success, v)"
    using decode_encode_size [of carrier32 v] assms(2) by (simp add: prod_eq_iff)
  have 3: "bit (snd (encode_byte_to_lsb b carrier8) ! i) 0 = bit b i" if "i < 8" for i
    using that assms(1) by (simp add: encode_byte_nth embed_bit_bit scast_byte_bit)
  have 4: "bit (snd (encode_size_to_lsb v carrier32) ! i) 0 = bit v i" if "i < 32" for i
    using that assms(2) by (simp add: encode_size_nth embed_bit_bit)
  from 1 2 3 4 show ?thesis by blast
qed

theorem bit_codec_round_trip_witness:
  "length [1, 2, 3, 4, 5, 6, 7, 8 :: byte] = 8 \<and> length (replicate 32 (0xFF :: byte)) = 32
   \<and> decode_byte_from_lsb (snd (encode_byte_to_lsb 0x68 [1, 2, 3, 4, 5, 6, 7, 8])) = (e_success, 0x68)
   \<and> bit (snd (encode_byte_to_lsb 0x68 [1, 2, 3, 4, 5, 6, 7, 8]) ! 3) 0 = bit (0x68 :: byte) 3
   \<and> decode_size_from_lsb (snd (encode_size_to_lsb 0xDEADBEEF (replicate 32 0xFF)))
       = (e_success, 0xDEADBEEF)
   \<and> bit (snd (encode_size_to_lsb 0xDEADBEEF (replicate 32 0xFF)) ! 31) 0
       = bit (0xDEADBEEF :: cint) 31"
proof -
  have a: "length [1, 2, 3, 4, 5, 6, 7, 8 :: byte] = 8" by simp
  have b: "length (replicate 32 (0xFF :: byte)) = 32" by simp
  from bit_codec_round_trip [OF a b, of "0x68" "0xDEADBEEF"] a b show ?thesis
    by simp
qed

text \<open>
  C7. Packing a byte into 8 carrier bytes, or a 32-bit value into 32 carrier bytes,
  always returns \<open>e_success\<close>, keeps the length of the carrier, and leaves bits 1 to 7
  of every carrier byte as they were.
\<close>

theorem pack_changes_lsb_only:
  assumes "length carrier8 = 8" and "length carrier32 = 32"
  shows "fst (encode_byte_to_lsb b carrier8) = e_success
       \<and> length (snd (encode_byte_to_lsb b carrier8)) = 8
       \<and> (\<forall>i<8. \<forall>n. 0 < n \<longrightarrow>
            bit (snd (encode_byte_to_lsb b carrier8) ! i) n = bit (carrier8 ! i) n)
       \<and> fst (encode_size_to_lsb v carrier32) = e_success
       \<and> length (snd (encode_size_to_lsb v carrier32)) = 32
       \<and> (\<forall>i<32. \<forall>n. 0 < n \<longrightarrow>
            bit (snd (encode_size_to_lsb v carrier32) ! i) n = bit (carrier32 ! i) n)"
proof -
  have 1: "bit (snd (encode_byte_to_lsb b carrier8) ! i) n = bit (carrier8 ! i) n"
    if "i < 8" "0 < n" for i n
    using that assms(1) by (auto simp add: encode_byte_nth embed_bit_bit dest: bit_imp_le_length)
  have 2: "bit (snd (encode_size_to_lsb v carrier32) ! i) n = bit (carrier32 ! i) n"
    if "i < 32" "0 < n" for i n
    using that assms(2) by (auto simp add: encode_size_nth embed_bit_bit dest: bit_imp_le_length)
  from 1 2 assms show ?thesis by simp
qed

theorem pack_changes_lsb_only_witness:
  "length [1, 2, 3, 4, 5, 6, 7, 8 :: byte] = 8 \<and> length (replicate 32 (0xFF :: byte)) = 32
   \<and> fst (encode_byte_to_lsb 0x68 [1, 2, 3, 4, 5, 6, 7, 8]) = e_success
   \<and> bit (snd (encode_byte_to_lsb 0x68 [1, 2, 3, 4, 5, 6, 7, 8]) ! 2) 1
       = bit ([1, 2, 3, 4, 5, 6, 7, 8 :: byte] ! 2) 1
   \<and> fst (encode_size_to_lsb 0xDEADBEEF (replicate 32 0xFF)) = e_success
   \<and> bit (snd (encode_size_to_lsb 0xDEADBEEF (replicate 32 0xFF)) ! 30) 7
       = bit (replicate 32 (0xFF :: byte) ! 30) 7"
proof -
  have a: "length [1, 2, 3, 4, 5, 6, 7, 8 :: byte] = 8" by simp
  have b: "length (replicate 32 (0xFF :: byte)) = 32" by simp
  from pack_changes_lsb_only [OF a b, of "0x68" "0xDEADBEEF"] a b show ?thesis
    by simp
qed

text \<open>
  C10. On a secret file of size zero \<open>do_encoding\<close> returns \<open>e_failure\<close> right after
  the files have been opened: the stego file is empty, nothing has been read from the
  cover image, and no extension has been recorded.
\<close>

theorem empty_secret_rejected:
  "\<exists>e. do_encoding cap L cover fname [] = Some (e_failure, e)
      \<and> bytes (fptr_stego_image e) = [] \<and> offset (fptr_src_image e) = 0
      \<and> extn_secret_file e = []"
  by (simp add: do_encoding_opened enc_opened_def fopen_wb_def fopen_rb_def)

lemma ascii_Nil [simp]: "ascii [] = []"
  by (simp add: ascii_def)

lemma ascii_Cons [simp]: "ascii (c # cs) = of_nat (of_char c) # ascii cs"
  by (simp add: ascii_def)

lemma length_ascii [simp]: "length (ascii s) = length s"
  by (simp add: ascii_def)

lemma strstr_a_b_txt: "strstr (ascii ''a.b.txt'') (ascii ''.'') = Some (ascii ''.b.txt'')"
  by simp

lemma strstr_s_txt: "strstr (ascii ''s.txt'') (ascii ''.'') = Some (ascii ''.txt'')"
  by simp

lemma check_capacity_bmp_image:
  assumes "w < 256" and "h < 256" and "w * h * 3 < 2 ^ 32" and "length secret + 14 < 2 ^ 32"
  shows "fst (check_capacity L (enc_opened (bmp_image w h p) fname secret)) = e_success
           \<longleftrightarrow> length secret + 14 \<le> w * h * 3 div 8"
proof -
  let ?e = "enc_opened (bmp_image w h p) fname secret"
  have b: "bytes (fptr_src_image ?e) = bmp_image w h p" "bytes (fptr_secret ?e) = secret"
    by (simp_all add: enc_opened_def fopen_rb_def)
  have u: "unat (bmp_width (bmp_image w h p)) = w" "unat (bmp_height (bmp_image w h p)) = h"
    using assms(1,2) by (simp_all add: bmp_image_geometry unsigned_ucast_eq unsigned_of_nat take_bit_nat_eq_self)
  have 1: "26 \<le> length (bytes (fptr_src_image ?e))" by (simp add: b bmp_image_geometry)
  have 2: "unat (bmp_width (bytes (fptr_src_image ?e)))
             * unat (bmp_height (bytes (fptr_src_image ?e))) * 3 < 2 ^ 32"
    using assms(3) by (simp add: b u)
  have 3: "length (bytes (fptr_secret ?e)) + 14 < 2 ^ 32" using assms(4) by (simp add: b)
  from check_capacity_nat [OF 1 2 3, of L] show ?thesis by (simp add: b u)
qed

lemma example_accepts:
  "enc_accepts 5 enc_locals0 (bmp_image 8 6 0xFE) (ascii ''s.txt'') (ascii ''hi'') (ascii ''.txt'')"
  unfolding enc_accepts_def
  by (simp add: check_capacity_bmp_image strstr_s_txt del: ascii_Cons)

lemma example_accepts_two_dots:
  "enc_accepts 8 enc_locals0 (bmp_image 8 6 0xFE) (ascii ''a.b.txt'') (ascii ''h'') (ascii ''.b.txt'')"
  unfolding enc_accepts_def
  by (simp add: check_capacity_bmp_image strstr_a_b_txt del: ascii_Cons)

lemma fields_len_container:
  "fields_len (container extn sz secret)
     = 8 * (length MAGIC_STRING + length extn + length secret) + 2 * 32"
  by (simp add: container_def)

text \<open>
  C3, as stated: the overhead would be the signature and the two 32-bit fields, 10 bytes.
  A cover image of 8 by 4 pixels has 12 usable bytes and a secret of 2 bytes needs
  2 + 10 = 12, yet \<open>check_capacity\<close> refuses it.
\<close>

theorem capacity_overhead_counterexample:
  "length [0, 0 :: byte] + (length MAGIC_STRING + 4 + 4)
     \<le> unat (bmp_width (bmp_image 8 4 0)) * unat (bmp_height (bmp_image 8 4 0)) * 3 div 8
   \<and> fst (check_capacity enc_locals0 (enc_opened (bmp_image 8 4 0) [] [0, 0])) = e_failure"
proof -
  have "fst (check_capacity enc_locals0 (enc_opened (bmp_image 8 4 0) [] [0, 0])) \<noteq> e_success"
    by (simp add: check_capacity_bmp_image)
  then show ?thesis
    by (simp add: Status_not_success bmp_image_geometry MAGIC_STRING_def)
qed

text \<open>
  C3, amended: the overhead is the constant 14 and the arithmetic is that of 32-bit
  unsigned integers. For a cover image with its geometry fields present, as long as
  width * height * 3 and the secret size plus 14 stay below \<open>2 ^ 32\<close>,
  \<open>check_capacity\<close> succeeds exactly when (width * height * 3) div 8 is at least the
  secret size plus 14; so a secret that needs exactly the usable capacity is accepted and
  one byte more is refused.
\<close>

theorem check_capacity_iff:
  assumes "26 \<le> length cover"
    and "unat (bmp_width cover) * unat (bmp_height cover) * 3 < 2 ^ 32"
    and "length secret + 14 < 2 ^ 32"
  shows "fst (check_capacity L (enc_opened cover fname secret)) = e_success
           \<longleftrightarrow> length secret + 14 \<le> unat (bmp_width cover) * unat (bmp_height cover) * 3 div 8"
proof -
  let ?e = "enc_opened cover fname secret"
  have b: "bytes (fptr_src_image ?e) = cover" "bytes (fptr_secret ?e) = secret"
    by (simp_all add: enc_opened_def fopen_rb_def)
  from check_capacity_nat [of ?e L] assms show ?thesis
    unfolding b by simp
qed

theorem check_capacity_iff_witness:
  "26 \<le> length (bmp_image 8 6 0)
   \<and> unat (bmp_width (bmp_image 8 6 0)) * unat (bmp_height (bmp_image 8 6 0)) * 3 < 2 ^ 32
   \<and> unat (bmp_width (bmp_image 8 6 0)) * unat (bmp_height (bmp_image 8 6 0)) * 3 div 8 = 18
   \<and> fst (check_capacity enc_locals0 (enc_opened (bmp_image 8 6 0) [] (replicate 4 0)))
       = e_success
   \<and> fst (check_capacity enc_locals0 (enc_opened (bmp_image 8 6 0) [] (replicate 5 0)))
       \<noteq> e_success"
proof -
  have 1: "26 \<le> length (bmp_image 8 6 0)" by (simp add: bmp_image_geometry)
  have 2: "unat (bmp_width (bmp_image 8 6 0)) * unat (bmp_height (bmp_image 8 6 0)) * 3 < 2 ^ 32"
    by (simp add: bmp_image_geometry)
  have 3: "length (replicate 4 (0 :: byte)) + 14 < 2 ^ 32" by simp
  have 4: "length (replicate 5 (0 :: byte)) + 14 < 2 ^ 32" by simp
  from check_capacity_iff [OF 1 2 3, of enc_locals0 "[]"]
    check_capacity_iff [OF 1 2 4, of enc_locals0 "[]"] 1 2
  show ?thesis by (simp add: bmp_image_geometry)
qed

text \<open>
  C6. After \<open>do_encoding\<close> has returned \<open>e_success\<close> on a cover image that has its 54
  header bytes, the first 54 bytes of the stego image are those of the cover image, and
  from the end of the container on (54 header bytes, then 8 carrier bytes for every byte
  of the signature, the extension and the secret, and 32 for each of the two length
  fields) the stego image is the cover image; when the cover image holds the whole
  container the two files have the same length.
\<close>

theorem stego_equals_cover_outside_container:
  assumes "do_encoding cap L cover fname secret = Some (e_success, e)"
    and "54 \<le> length cover"
  shows "take 54 (bytes (fptr_stego_image e)) = take 54 cover
       \<and> drop (54 + 8 * (length MAGIC_STRING + length (extn_secret_file e) + length secret)
                 + 2 * 32) (bytes (fptr_stego_image e))
          = drop (54 + 8 * (length MAGIC_STRING + length (extn_secret_file e) + length secret)
                   + 2 * 32) cover
       \<and> (54 + 8 * (length MAGIC_STRING + length (extn_secret_file e) + length secret)
             + 2 * 32 \<le> length cover
           \<longrightarrow> length (bytes (fptr_stego_image e)) = length cover)"
proof -
  from do_encoding_success [OF assms(1)] obtain extn where
    x: "extn_secret_file e = extn"
    and en: "encoded_as cover (container extn (of_nat (length secret)) secret)
               (bytes (fptr_stego_image e))"
    by blast
  let ?n = "54 + 8 * (length MAGIC_STRING + length extn + length secret) + 2 * 32"
  let ?s = "bytes (fptr_stego_image e)"
  have n: "54 + fields_len (container extn (of_nat (length secret)) secret) = ?n"
    by (simp add: fields_len_container)
  have m: "min 54 (length cover) = 54" using assms(2) by simp
  have 1: "take 54 ?s = take 54 cover"
    using en unfolding encoded_as_def m by blast
  have 2: "drop ?n ?s = drop ?n cover"
    using en unfolding encoded_as_def n by blast
  have 3: "length ?s = max (length cover) ?n"
    using en unfolding encoded_as_def n by blast
  from 1 2 3 show ?thesis
    unfolding x by (simp add: max_def)
qed

theorem stego_equals_cover_outside_container_witness:
  "\<exists>e. do_encoding 5 enc_locals0 (bmp_image 8 6 0xFE) (ascii ''s.txt'') (ascii ''hi'')
          = Some (e_success, e)
      \<and> 54 \<le> length (bmp_image 8 6 0xFE)
      \<and> extn_secret_file e = ascii ''.txt''
      \<and> take 54 (bytes (fptr_stego_image e)) = take 54 (bmp_image 8 6 0xFE)
      \<and> drop 182 (bytes (fptr_stego_image e)) = drop 182 (bmp_image 8 6 0xFE)
      \<and> length (bytes (fptr_stego_image e)) = length (bmp_image 8 6 0xFE)"
proof -
  from do_encoding_if [OF example_accepts] obtain e where
    d: "do_encoding 5 enc_locals0 (bmp_image 8 6 0xFE) (ascii ''s.txt'') (ascii ''hi'')
          = Some (e_success, e)"
    and x: "extn_secret_file e = ascii ''.txt''" by blast
  have l: "54 \<le> length (bmp_image 8 6 0xFE)" by (simp add: bmp_image_geometry)
  from stego_equals_cover_outside_container [OF d l] d l x show ?thesis
    by (simp add: MAGIC_STRING_def bmp_image_geometry del: ascii_Cons)
qed

text \<open>
  C8, at the file name \<^verbatim>\<open>a.b.txt\<close>: \<^verbatim>\<open>strstr(secret_fname, ".")\<close> finds the first dot, so
  the extension recorded and embedded is \<^verbatim>\<open>.b.txt\<close> and not \<^verbatim>\<open>.txt\<close> (with an
  extension array of 8 bytes; a smaller one is overrun).
\<close>

theorem extension_from_first_dot:
  "\<exists>e. do_encoding 8 enc_locals0 (bmp_image 8 6 0xFE) (ascii ''a.b.txt'') (ascii ''h'')
          = Some (e_success, e)
      \<and> extn_secret_file e = ascii ''.b.txt''
      \<and> extn_secret_file e \<noteq> ascii ''.txt''"
proof -
  from do_encoding_if [OF example_accepts_two_dots] obtain e where
    "do_encoding 8 enc_locals0 (bmp_image 8 6 0xFE) (ascii ''a.b.txt'') (ascii ''h'')
          = Some (e_success, e)"
    and "extn_secret_file e = ascii ''.b.txt''" by blast
  then show ?thesis by simp
qed

lemma container_header_fields:
  "container extn sz secret = header_fields extn sz @ map Byte secret"
  by (simp add: container_def header_fields_def)

lemma fields_len_header_fields [simp]:
  "fields_len (header_fields extn sz) = 80 + 8 * length extn"
  by (simp add: header_fields_def MAGIC_STRING_def)

lemma stream_advance_eq:
  "f\<lparr>offset := offset f + a\<rparr> = \<lparr>bytes = bytes f, offset = offset f + a\<rparr>"
  by simp

lemma cstr_terminated: "0 \<notin> set xs \<Longrightarrow> cstr (xs @ 0 # ys) = xs"
  by (simp add: cstr_def takeWhile_append)

lemma sint_small_of_nat:
  assumes "n < 2 ^ 31"
  shows "sint (of_nat n :: cint) = int n"
proof -
  have "int n < 2 ^ 31" using assms by (simp flip: of_nat_less_iff)
  then have "signed_take_bit 31 (int n) = int n"
    by (intro signed_take_bit_int_eq_self) simp_all
  then show ?thesis by (simp add: signed_of_nat)
qed

lemma replicate_update_same: "(replicate k x)[0 := x] = replicate k x"
  by (cases k) simp_all

text \<open>
  The decoder on a stego image that holds the fields of a header followed by the fields
  \<open>gs\<close>: all steps up to the size of the secret succeed, and what is left is the
  decoding of the payload.
\<close>

lemma do_decoding_header:
  fixes extn base :: "byte list" and out_name :: "byte list option"
  defines "name \<equiv> base @ extn"
  assumes stego: "stego = H @ embed_fields (header_fields extn sz @ gs) cs @ tail"
    and H: "length H = 54"
    and fits: "fields_len (header_fields extn sz @ gs) \<le> length cs"
    and extn: "extn \<noteq> []" "length extn < MAX_FILE_SUFFIX" "0 \<notin> set extn"
    and magic: "l_magic_buffer L 2 = 0"
  shows "output_base out_name = Some base \<Longrightarrow> creatable name \<Longrightarrow> length name \<le> 255 \<Longrightarrow>
         do_decoding L creatable stego out_name =
           dec_k5 L
             \<lparr>dec_fptr_stego_image = \<lparr>bytes = stego, offset = 54 + (80 + 8 * length extn)\<rparr>,
              output_fname = out_name,
              fptr_secret_out = Some (name, fopen_wb),
              dec_extn_secret_file = extn @ replicate (MAX_FILE_SUFFIX - length extn) 0,
              dec_size_secret_file = sint sz,
              extn_size = of_nat (length extn)\<rparr>"
    and "drop (54 + (80 + 8 * length extn)) stego
           = embed_fields gs (drop (80 + 8 * length extn) cs) @ tail"
    and "output_base out_name = None \<Longrightarrow> do_decoding L creatable stego out_name = None"
proof -
  let ?n = "length extn"
  have n5: "?n < 5" "0 < ?n" using extn by (simp_all add: MAX_FILE_SUFFIX_def)
  let ?g1 = "[Size (of_nat ?n)] @ map Byte extn @ [Size sz] @ gs"
  let ?g2 = "map Byte extn @ [Size sz] @ gs"
  let ?g3 = "[Size sz] @ gs"
  have hf: "header_fields extn sz @ gs = map Byte MAGIC_STRING @ ?g1"
    by (simp add: header_fields_def)
  have lcs: "80 + 8 * ?n + fields_len gs \<le> length cs" using fits by simp
  \<comment> \<open>the stream after the header of the file\<close>
  define d0 where "d0 = dec_opened stego out_name"
  define f0 where "f0 = dec_fptr_stego_image d0"
  have f0: "bytes f0 = stego" "offset f0 = 54"
    by (simp_all add: f0_def d0_def rest_dec_opened)
  have r0: "rest f0 = embed_fields (map Byte MAGIC_STRING @ ?g1) cs @ tail"
    using H by (simp add: f0_def d0_def rest_dec_opened stego hf)
  have r0': "rest f0 = snd (encode_byte_to_lsb 0x23 (take 8 cs))
               @ snd (encode_byte_to_lsb 0x2A (take 8 (drop 8 cs)))
               @ embed_fields ?g1 (drop 16 cs) @ tail"
    unfolding r0 by (simp add: MAGIC_STRING_def)
  have l8: "length (snd (encode_byte_to_lsb 0x23 (take 8 cs))) = 8"
      "length (snd (encode_byte_to_lsb 0x2A (take 8 (drop 8 cs)))) = 8"
    using lcs by simp_all
  have t0: "take 8 (rest f0) = snd (encode_byte_to_lsb 0x23 (take 8 cs))"
    unfolding r0' using l8 by simp
  have t1: "take 8 (drop 8 (rest f0)) = snd (encode_byte_to_lsb 0x2A (take 8 (drop 8 cs)))"
    unfolding r0' using l8 by simp
  have b0: "snd (decode_byte_from_lsb (take 8 (rest f0))) = 0x23"
    unfolding t0 by (rule decode_encode_byte) (use lcs in simp)
  have b1: "snd (decode_byte_from_lsb (take 8 (drop 8 (rest f0)))) = 0x2A"
    unfolding t1 by (rule decode_encode_byte) (use lcs in simp)
  have len0: "16 \<le> length (rest (dec_fptr_stego_image d0))"
    using l8 by (simp add: r0' flip: f0_def)
  \<comment> \<open>signature\<close>
  define f1 where "f1 = f0\<lparr>offset := offset f0 + 16\<rparr>"
  define d1 where "d1 = d0\<lparr>dec_fptr_stego_image := f1\<rparr>"
  have s1: "decode_magic_string (l_magic_buffer L) d0 = (e_success, d1)"
    using decode_magic_string_read [OF len0, of "l_magic_buffer L"] b0 b1 magic
    by (simp add: d1_def f1_def flip: f0_def)
  have r1: "rest f1 = embed_fields ?g1 (drop 16 cs) @ tail"
    using l8 by (simp add: f1_def rest_advance r0')
  \<comment> \<open>length of the extension\<close>
  define f2 where "f2 = f1\<lparr>offset := offset f1 + 32\<rparr>"
  define d2 where "d2 = d1\<lparr>dec_fptr_stego_image := f2, extn_size := of_nat ?n\<rparr>"
  have fl1: "fields_len (Size (of_nat ?n) # ?g2) \<le> length (drop 16 cs)"
    using lcs by simp
  have r1c: "rest f1 = embed_fields (Size (of_nat ?n) # ?g2) (drop 16 cs) @ tail"
    using r1 by simp
  note sf1 = size_field_embedded [OF r1c fl1]
  have sn: "sint (of_nat ?n :: cint) = int ?n"
    by (rule sint_small_of_nat) (use n5 in simp)
  have s2: "decode_file_extn_size (l_extn_size_arr L) d1 = (e_success, d2)"
    using sf1(2) [of "l_extn_size_arr L"] n5
    by (simp add: decode_file_extn_size_def Let_def split_beta d1_def d2_def f2_def sf1(1) sn
          prod_eq_iff)
  have r2: "rest f2 = embed_fields ?g2 (drop 48 cs) @ tail"
    using sf1(3) by (simp add: f2_def)
  \<comment> \<open>extension\<close>
  define f3 where "f3 = f2\<lparr>offset := offset f2 + 8 * ?n\<rparr>"
  define x3 where "x3 = extn @ replicate (MAX_FILE_SUFFIX - ?n) 0"
  define d3 where "d3 = d2\<lparr>dec_extn_secret_file := x3, dec_fptr_stego_image := f3\<rparr>"
  have fl2: "fields_len (map Byte extn @ ?g3) \<le> length (drop 48 cs)"
    using lcs by simp
  have r2c: "rest f2 = embed_fields (map Byte extn @ ?g3) (drop 48 cs) @ tail"
    using r2 by simp
  have z: "dec_extn_secret_file d2 = replicate 5 0" "dec_fptr_stego_image d2 = f2"
      "extn_size d2 = of_nat ?n"
    by (simp_all add: d2_def d1_def d0_def rest_dec_opened)
  have dl: "decode_data_loop ?n 0 (replicate 5 0) f2
              = (e_success, take 0 (replicate 5 0) @ extn @ drop (0 + ?n) (replicate 5 0), f3)"
    unfolding f3_def
    by (rule decode_data_loop_embedded [OF r2c fl2]) (use n5 in simp)
  have x3': "(extn @ replicate (5 - ?n) 0)[?n := 0] = x3"
    using n5 by (simp add: x3_def MAX_FILE_SUFFIX_def list_update_append replicate_update_same)
  have s3: "decode_secret_file_extn d2 = (e_success, d3)"
    using n5
    by (simp add: decode_secret_file_extn_def z sn MAX_FILE_SUFFIX_def Let_def
          decode_data_from_image_def dl d3_def x3')
  have r3: "rest f3 = embed_fields ?g3 (drop (48 + 8 * ?n) cs) @ tail"
  proof -
    have "length (embed_fields (map Byte extn) (drop 48 cs)) = 8 * ?n"
      using lcs length_embed_fields [of "map Byte extn" "drop 48 cs"] by simp
    then show ?thesis
      by (simp add: f3_def rest_advance r2 embed_fields_append add.commute)
  qed
  \<comment> \<open>name of the output file\<close>
  have c3: "cstr (dec_extn_secret_file d3) = extn"
  proof -
    have "MAX_FILE_SUFFIX - ?n = Suc (MAX_FILE_SUFFIX - ?n - 1)"
      using n5 by (simp add: MAX_FILE_SUFFIX_def)
    then have "x3 = extn @ 0 # replicate (MAX_FILE_SUFFIX - ?n - 1) 0"
      unfolding x3_def by (metis replicate_Suc)
    then show ?thesis using extn(3) by (simp add: d3_def cstr_terminated)
  qed
  have o3: "output_fname d3 = out_name"
    by (simp add: d3_def d2_def d1_def d0_def rest_dec_opened)
  define d3' where "d3' = d3\<lparr>fptr_secret_out := Some (name, fopen_wb)\<rparr>"
  \<comment> \<open>size of the secret\<close>
  define f4 where "f4 = f3\<lparr>offset := offset f3 + 32\<rparr>"
  define d4 where "d4 = d3'\<lparr>dec_fptr_stego_image := f4, dec_size_secret_file := sint sz\<rparr>"
  have fl3: "fields_len (Size sz # gs) \<le> length (drop (48 + 8 * ?n) cs)"
    using lcs by simp
  have r3c: "rest f3 = embed_fields (Size sz # gs) (drop (48 + 8 * ?n) cs) @ tail"
    using r3 by simp
  note sf3 = size_field_embedded [OF r3c fl3]
  have zf: "dec_fptr_stego_image d3' = f3" by (simp add: d3'_def d3_def)
  have s4: "decode_secret_file_size (l_size_arr L) d3' = (e_success, d4)"
    using sf3(2) [of "l_size_arr L"]
    by (simp add: decode_secret_file_size_def Let_def split_beta zf sf3(1) d4_def f4_def)
  have pre: "do_decoding L creatable stego out_name = dec_k4 L creatable d3"
    unfolding do_decoding_tails
    by (simp add: on_success_def s1 s2 s3 dec_k2_def dec_k3_def flip: d0_def)
  show "do_decoding L creatable stego out_name = None" if "output_base out_name = None"
    unfolding pre dec_k4_def using that by (simp add: o3)
  have d4: "d4 =
      \<lparr>dec_fptr_stego_image = \<lparr>bytes = stego, offset = 54 + (80 + 8 * ?n)\<rparr>,
       output_fname = out_name,
       fptr_secret_out = Some (name, fopen_wb),
       dec_extn_secret_file = extn @ replicate (MAX_FILE_SUFFIX - ?n) 0,
       dec_size_secret_file = sint sz,
       extn_size = of_nat ?n\<rparr>"
    by (simp add: d4_def d3'_def d3_def d2_def d1_def d0_def f4_def f3_def f2_def f1_def
          f0_def x3_def dec_opened_def open_files_decode_def fseek_set_def fopen_rb_def)
  show "do_decoding L creatable stego out_name =
           dec_k5 L
             \<lparr>dec_fptr_stego_image = \<lparr>bytes = stego, offset = 54 + (80 + 8 * length extn)\<rparr>,
              output_fname = out_name,
              fptr_secret_out = Some (name, fopen_wb),
              dec_extn_secret_file = extn @ replicate (MAX_FILE_SUFFIX - length extn) 0,
              dec_size_secret_file = sint sz,
              extn_size = of_nat (length extn)\<rparr>"
    if ob: "output_base out_name = Some base" and creat: "creatable name"
      and short: "length name \<le> 255"
  proof -
    have nm: "base @ cstr (dec_extn_secret_file d3) = name"
      by (simp add: c3 name_def)
    have "dec_k4 L creatable d3 = dec_k5 L d4"
      unfolding dec_k4_def o3 ob option.case Let_def nm
      using creat short by (simp add: on_success_def s4 flip: d3'_def)
    then show ?thesis unfolding pre d4 by simp
  qed
  have "rest f4 = embed_fields gs (drop (80 + 8 * ?n) cs) @ tail"
    using sf3(3) by (simp add: f4_def add.commute)
  moreover have "rest f4 = drop (54 + (80 + 8 * ?n)) stego"
    by (simp add: rest_def f4_def f3_def f2_def f1_def f0)
  ultimately show "drop (54 + (80 + 8 * length extn)) stego
           = embed_fields gs (drop (80 + 8 * length extn) cs) @ tail"
    by simp
qed

lemma strstr_Some:
  "strstr s needle = Some r \<Longrightarrow> (\<exists>p. s = p @ r) \<and> take (length needle) r = needle"
proof (induction s)
  case Nil
  then show ?case by (simp split: if_splits)
next
  case (Cons c cs)
  show ?case
  proof (cases "take (length needle) (c # cs) = needle")
    case True
    with Cons.prems show ?thesis by auto
  next
    case False
    with Cons.prems have "strstr cs needle = Some r" by simp
    from Cons.IH [OF this] obtain p where "cs = p @ r" "take (length needle) r = needle" by blast
    then have "c # cs = (c # p) @ r" by simp
    with \<open>take (length needle) r = needle\<close> show ?thesis by blast
  qed
qed

lemma ascii_dot: "ascii ''.'' = [0x2E]"
  by simp

lemma strstr_dot_extn:
  assumes "strstr fname (ascii ''.'') = Some extn" and "0 \<notin> set fname"
  shows "extn \<noteq> []" and "0 \<notin> set extn" and "hd extn = 0x2E"
proof -
  from strstr_Some [OF assms(1)] obtain p where
    p: "fname = p @ extn" and t: "take 1 extn = [0x2E]" by (auto simp add: ascii_dot)
  from t show "extn \<noteq> []" by auto
  from p assms(2) show "0 \<notin> set extn" by simp
  from t show "hd extn = 0x2E" by (cases extn) simp_all
qed

lemma check_capacity_word:
  assumes "26 \<le> length (bytes (fptr_src_image e))"
    and "length (bytes (fptr_secret e)) + 14 < 2 ^ 32"
  shows "fst (check_capacity L e) = e_success \<longleftrightarrow>
           length (bytes (fptr_secret e)) + 14
             \<le> unat (bmp_width (bytes (fptr_src_image e))
                      * bmp_height (bytes (fptr_src_image e)) * 3) div 8"
proof -
  let ?c = "bmp_width (bytes (fptr_src_image e)) * bmp_height (bytes (fptr_src_image e)) * 3"
  let ?S = "length (bytes (fptr_secret e))"
  have d: "unat (?c div 8) = unat ?c div 8"
    by (simp add: unat_div)
  have s: "unat (of_nat ?S + 14 :: cint) = ?S + 14"
    using assms(2) by (simp add: unat_word_ariths unat_of_nat)
  show ?thesis
    unfolding check_capacity_status get_image_size_full [OF assms(1)] word_less_nat_alt d s
    by auto
qed

text \<open>The payload loop on embedded bytes, and on a stream that has run out.\<close>

lemma dec_k5_embedded:
  assumes "rest (dec_fptr_stego_image d) = embed_fields (map Byte secret) cs @ tail"
    and "8 * length secret \<le> length cs"
    and "fptr_secret_out d = Some (name, fopen_wb)"
    and "dec_size_secret_file d = int (length secret)"
  shows "dec_k5 L d = Some (e_success,
           d\<lparr>dec_fptr_stego_image :=
                (dec_fptr_stego_image d)\<lparr>offset := offset (dec_fptr_stego_image d)
                                                  + 8 * length secret\<rparr>,
              fptr_secret_out := Some (name, \<lparr>bytes = secret, offset = length secret\<rparr>)\<rparr>)"
proof -
  have r: "rest (dec_fptr_stego_image d) = embed_fields (map Byte secret @ []) cs @ tail"
    using assms(1) by simp
  have l: "fields_len (map Byte secret @ []) \<le> length cs" using assms(2) by simp
  have a: "at_end fopen_wb" by (simp add: at_end_def fopen_wb_def)
  from decode_secret_loop_embedded [OF r l a, of "l_ch L"]
  show ?thesis
    by (simp add: dec_k5_def decode_secret_file_data_def assms(3,4) on_success_def fopen_wb_def)
qed

lemma decode_secret_loop_exhausted:
  assumes "rest f = []" and "at_end out"
  shows "decode_secret_loop n ch f out =
           (ch, f, \<lparr>bytes = bytes out @ replicate n ch,
                   offset = length (bytes out @ replicate n ch)\<rparr>)"
  using assms(2)
proof (induction n arbitrary: out)
  case 0
  then show ?case by (simp add: at_end_def)
next
  case (Suc n)
  have fr: "fread 8 f = ([], f)"
    using assms(1) by (simp add: fread_def rest_def Let_def)
  have dd: "decode_data_from_image [ch] 1 f = (e_failure, [ch], f)"
    by (simp add: decode_data_from_image_def fr)
  have o1: "at_end (fwrite [ch] out)" "bytes (fwrite [ch] out) = bytes out @ [ch]"
    using Suc.prems by (simp_all add: fwrite_at_end)
  have "decode_secret_loop (Suc n) ch f out = decode_secret_loop n ch f (fwrite [ch] out)"
    by (simp add: dd)
  also note Suc.IH [OF o1(1)]
  finally show ?case by (simp add: o1 replicate_append_same)
qed

lemma dec_k5_exhausted:
  assumes "rest (dec_fptr_stego_image d) = []"
    and "fptr_secret_out d = Some (name, fopen_wb)"
  shows "dec_k5 L d = Some (e_success,
           d\<lparr>fptr_secret_out :=
                Some (name, \<lparr>bytes = replicate (nat (dec_size_secret_file d)) (l_ch L),
                             offset = nat (dec_size_secret_file d)\<rparr>)\<rparr>)"
proof -
  have a: "at_end fopen_wb" by (simp add: at_end_def fopen_wb_def)
  from decode_secret_loop_exhausted [OF assms(1) a, of "nat (dec_size_secret_file d)" "l_ch L"]
  show ?thesis
    by (simp add: dec_k5_def decode_secret_file_data_def assms(2) on_success_def fopen_wb_def)
qed

lemma decode_magic_string_short:
  assumes "length (rest (dec_fptr_stego_image d)) < 8"
  shows "fst (decode_magic_string g d) = e_failure"
proof -
  have n: "nat (int (length MAGIC_STRING)) = Suc (Suc 0)" by (simp add: MAGIC_STRING_def)
  have "length (fst (fread 8 (dec_fptr_stego_image d))) \<noteq> 8"
    by (rule fread_short) (rule assms)
  then show ?thesis
    unfolding decode_magic_string_def decode_data_from_image_def n Let_def
    by (simp add: split_beta)
qed

lemma unat_small_of_nat: "n < 2 ^ 32 \<Longrightarrow> unat (of_nat n :: cint) = n"
  by (simp add: unat_of_nat)

lemma output_base_None: "output_base None = Some (ascii ''decoded'')"
  by (simp add: output_base_def)

text \<open>
  A stream that ends inside the 16 carrier bytes of the signature, and a comparison buffer
  whose third byte is not zero: in both cases \<open>decode_magic_string\<close> fails.
\<close>

lemma decode_magic_string_short16:
  assumes "length (rest (dec_fptr_stego_image d)) < 16"
  shows "fst (decode_magic_string g d) = e_failure"
proof (cases "length (rest (dec_fptr_stego_image d)) < 8")
  case True
  then show ?thesis by (rule decode_magic_string_short)
next
  case False
  let ?f = "dec_fptr_stego_image d"
  let ?f' = "?f\<lparr>offset := offset ?f + 8\<rparr>"
  have n: "nat (int (length MAGIC_STRING)) = Suc (Suc 0)" by (simp add: MAGIC_STRING_def)
  have 1: "fread 8 ?f = (take 8 (rest ?f), ?f')"
    by (rule fread_full) (use False in simp)
  have l: "length (take 8 (rest ?f)) = 8" using False by simp
  have "length (rest ?f') < 8" using assms by (simp add: rest_advance)
  then have 2: "length (fst (fread 8 ?f')) \<noteq> 8" by (rule fread_short)
  show ?thesis
    unfolding decode_magic_string_def decode_data_from_image_def n Let_def
    using 2 l by (simp add: 1 split_beta del: length_take)
qed

lemma decode_magic_string_garbage:
  assumes "g 2 \<noteq> 0"
  shows "fst (decode_magic_string g d) = e_failure"
proof (cases "16 \<le> length (rest (dec_fptr_stego_image d))")
  case True
  from decode_magic_string_read [OF True, of g] assms show ?thesis by simp
next
  case False
  then have "length (rest (dec_fptr_stego_image d)) < 16" by simp
  then show ?thesis by (rule decode_magic_string_short16)
qed

lemma do_decoding_garbage:
  assumes "l_magic_buffer L 2 \<noteq> 0"
  shows "\<exists>d. do_decoding L creatable stego out_name = Some (e_failure, d)
           \<and> fptr_secret_out d = None"
proof -
  let ?r = "decode_magic_string (l_magic_buffer L) (dec_opened stego out_name)"
  have "fst ?r \<noteq> e_success"
    using decode_magic_string_garbage [where g = "l_magic_buffer L"
        and d = "dec_opened stego out_name", OF assms] by simp
  then have "do_decoding L creatable stego out_name = Some (e_failure, snd ?r)"
    unfolding do_decoding_tails by (rule on_success_fail)
  moreover have "fptr_secret_out (snd ?r) = None"
    by (simp add: decode_magic_string_frame rest_dec_opened)
  ultimately show ?thesis by blast
qed

text \<open>
  What the decoder makes of an image the encoder wrote, in the runs in which the byte
  behind the two decoded signature bytes in the comparison buffer of
  \<open>decode_magic_string\<close>, which the code leaves uninitialised, is zero. The secret is
  not empty; the file name is a C string and \<open>extn\<close> is what \<open>do_encoding\<close> takes for
  its extension, shorter than \<open>MAX_FILE_SUFFIX\<close> and fitting the encoder's array; the
  cover image has the pixel bytes its header announces, and an eighth of them is at least
  the size of the secret plus 14; the name of the output file is defined, has at most 255
  characters and the file can be created. Then \<open>do_encoding\<close> succeeds and
  \<open>do_decoding\<close> on the stego image succeeds and writes the bytes of the secret.
\<close>

lemma round_trip_zeroed_buffer:
  assumes nonempty: "secret \<noteq> []"
    and extn: "strstr fname (ascii ''.'') = Some extn" "0 \<notin> set fname"
      "length extn < MAX_FILE_SUFFIX" "length extn < cap"
    and pixels: "54 + unat (bmp_width cover * bmp_height cover * 3) \<le> length cover"
    and admits: "length secret + 14 \<le> unat (bmp_width cover * bmp_height cover * 3) div 8"
    and magic: "l_magic_buffer LD 2 = 0"
    and ob: "output_base out_name = Some base"
    and creat: "creatable (base @ extn)" "length (base @ extn) \<le> 255"
  shows "\<exists>e d. do_encoding cap LE cover fname secret = Some (e_success, e)
           \<and> extn_secret_file e = extn
           \<and> do_decoding LD creatable (bytes (fptr_stego_image e)) out_name = Some (e_success, d)
           \<and> fptr_secret_out d
               = Some (base @ extn, \<lparr>bytes = secret, offset = length secret\<rparr>)
           \<and> cstr (dec_extn_secret_file d) = extn"
proof -
  let ?S = "length secret"
  let ?c = "bmp_width cover * bmp_height cover * 3"
  have c32: "unat ?c < 2 ^ 32" using unsigned_less [of ?c] by simp
  have S: "?S + 14 \<le> unat ?c div 8" by (rule admits)
  have S29: "?S < 2 ^ 29" using S c32 by simp
  have x5: "length extn < 5" using extn(3) by (simp add: MAX_FILE_SUFFIX_def)
  note xs = strstr_dot_extn [OF extn(1,2)]
  \<comment> \<open>the encoder accepts\<close>
  have u: "unat (of_nat ?S :: cint) = ?S"
    by (rule unat_small_of_nat) (use S29 in simp)
  have "uint (of_nat ?S :: cint) = int (unat (of_nat ?S :: cint))" by simp
  then have a1: "0 < uint (of_nat ?S :: cint)" using nonempty unfolding u by simp
  have sS: "sint (of_nat ?S :: cint) = int ?S"
    by (rule sint_small_of_nat) (use S29 in simp)
  have a2: "0 \<le> sint (of_nat ?S :: cint)" by (simp add: sS)
  let ?e1 = "enc_opened cover fname secret"
  have b: "bytes (fptr_src_image ?e1) = cover" "bytes (fptr_secret ?e1) = secret"
    by (simp_all add: enc_opened_def fopen_rb_def)
  have a3: "fst (check_capacity LE ?e1) = e_success"
  proof -
    have 1: "26 \<le> length (bytes (fptr_src_image ?e1))" using pixels by (simp add: b)
    have 2: "length (bytes (fptr_secret ?e1)) + 14 < 2 ^ 32" using S29 by (simp add: b)
    from check_capacity_word [OF 1 2, of LE] S show ?thesis by (simp add: b)
  qed
  have acc: "enc_accepts cap LE cover fname secret extn"
    unfolding enc_accepts_def using a1 a2 a3 extn(1,4) by blast
  from do_encoding_if [OF acc] obtain e where
    enc: "do_encoding cap LE cover fname secret = Some (e_success, e)"
    and ex: "extn_secret_file e = extn"
    and en: "encoded_as cover (container extn (of_nat ?S) secret) (bytes (fptr_stego_image e))"
    by blast
  \<comment> \<open>the stego image holds the container\<close>
  let ?fs = "container extn (of_nat ?S) secret"
  have fl: "fields_len ?fs = 80 + 8 * length extn + 8 * ?S"
    by (simp add: container_header_fields)
  have room: "54 + fields_len ?fs \<le> length cover"
    using S x5 pixels unfolding fl by simp
  let ?stego = "bytes (fptr_stego_image e)"
  have stego: "?stego = take 54 cover
      @ embed_fields (header_fields extn (of_nat ?S) @ map Byte secret) (drop 54 cover)
      @ drop (54 + fields_len ?fs) cover"
    using en room unfolding encoded_as_def container_header_fields by blast
  have H: "length (take 54 cover) = 54" using room by simp
  have fits: "fields_len (header_fields extn (of_nat ?S) @ map Byte secret)
                \<le> length (drop 54 cover)"
    using room by (simp add: container_header_fields)
  \<comment> \<open>the decoder reads it back\<close>
  note dh1 = do_decoding_header(1) [where creatable = creatable and out_name = out_name
      and base = base, OF stego H fits xs(1) extn(3) xs(2) magic ob creat]
  note dh2 = do_decoding_header(2) [OF stego H fits xs(1) extn(3) xs(2) magic]
  let ?d4 = "\<lparr>dec_fptr_stego_image = \<lparr>bytes = ?stego, offset = 54 + (80 + 8 * length extn)\<rparr>,
              output_fname = out_name,
              fptr_secret_out = Some (base @ extn, fopen_wb),
              dec_extn_secret_file = extn @ replicate (MAX_FILE_SUFFIX - length extn) 0,
              dec_size_secret_file = sint (of_nat ?S :: cint),
              extn_size = of_nat (length extn)\<rparr>"
  have r4: "rest (dec_fptr_stego_image ?d4)
              = embed_fields (map Byte secret) (drop (80 + 8 * length extn) (drop 54 cover))
                  @ drop (54 + fields_len ?fs) cover"
    using dh2 by (simp add: rest_def)
  have l4: "8 * ?S \<le> length (drop (80 + 8 * length extn) (drop 54 cover))"
    using room unfolding fl by simp
  have o4: "fptr_secret_out ?d4 = Some (base @ extn, fopen_wb)" by simp
  have z4: "dec_size_secret_file ?d4 = int ?S" by (simp add: sS)
  note k5 = dec_k5_embedded [OF r4 l4 o4 z4, of LD]
  have c: "cstr (extn @ replicate (MAX_FILE_SUFFIX - length extn) 0) = extn"
  proof -
    have "MAX_FILE_SUFFIX - length extn = Suc (MAX_FILE_SUFFIX - length extn - 1)"
      using x5 by (simp add: MAX_FILE_SUFFIX_def)
    then have "replicate (MAX_FILE_SUFFIX - length extn) (0 :: byte)
                 = 0 # replicate (MAX_FILE_SUFFIX - length extn - 1) 0"
      by (metis replicate_Suc)
    then show ?thesis using xs(2) by (simp add: cstr_terminated)
  qed
  from enc ex dh1 k5 c show ?thesis by simp
qed

text \<open>
  C1, at a cover image of 8 by 6 pixels and the secret \<^verbatim>\<open>hi\<close> of the file \<^verbatim>\<open>s.txt\<close>:
  \<open>do_encoding\<close> succeeds. On the stego image it wrote, \<open>do_decoding\<close> returns
  \<open>e_failure\<close> and creates no output file when the byte that the stack holds behind the
  two decoded signature bytes is not zero; the same call decodes \<^verbatim>\<open>hi\<close> into
  \<^verbatim>\<open>decoded.txt\<close> when that byte is zero. \<open>decode_magic_string\<close> compares its buffer as a
  C string and never terminates it.
\<close>

theorem encoded_image_rejected_on_stack_garbage:
  "\<exists>e. do_encoding 5 enc_locals0 (bmp_image 8 6 0xFE) (ascii ''s.txt'') (ascii ''hi'')
          = Some (e_success, e)
     \<and> l_magic_buffer dec_locals_garbage 2 = 0x41
     \<and> (\<exists>d. do_decoding dec_locals_garbage always_creatable (bytes (fptr_stego_image e)) None
                = Some (e_failure, d)
            \<and> fptr_secret_out d = None)
     \<and> l_magic_buffer dec_locals0 2 = 0
     \<and> (\<exists>d. do_decoding dec_locals0 always_creatable (bytes (fptr_stego_image e)) None
                = Some (e_success, d)
            \<and> fptr_secret_out d
                = Some (ascii ''decoded.txt'', \<lparr>bytes = ascii ''hi'', offset = 2\<rparr>)
            \<and> cstr (dec_extn_secret_file d) = ascii ''.txt'')"
proof -
  have 1: "ascii ''hi'' \<noteq> []" by simp
  have 2: "0 \<notin> set (ascii ''s.txt'')" by simp
  have 3: "length (ascii ''.txt'') < MAX_FILE_SUFFIX" by (simp add: MAX_FILE_SUFFIX_def)
  have 4: "length (ascii ''.txt'') < 5" by simp
  have 5: "54 + unat (bmp_width (bmp_image 8 6 0xFE) * bmp_height (bmp_image 8 6 0xFE) * 3)
             \<le> length (bmp_image 8 6 0xFE)"
    by (simp add: bmp_image_geometry)
  have 6: "length (ascii ''hi'') + 14
             \<le> unat (bmp_width (bmp_image 8 6 0xFE) * bmp_height (bmp_image 8 6 0xFE) * 3) div 8"
    by (simp add: bmp_image_geometry)
  have 7: "l_magic_buffer dec_locals0 2 = 0" by (simp add: dec_locals0_def)
  have 8: "always_creatable (ascii ''decoded'' @ ascii ''.txt'')"
    by (simp add: always_creatable_def)
  have 9: "length (ascii ''decoded'' @ ascii ''.txt'') \<le> 255" by simp
  have n: "ascii ''decoded'' @ ascii ''.txt'' = ascii ''decoded.txt''" by simp
  have g: "l_magic_buffer dec_locals_garbage 2 = 0x41" by (simp add: dec_locals_garbage_def)
  then have g0: "l_magic_buffer dec_locals_garbage 2 \<noteq> 0" by simp
  from round_trip_zeroed_buffer [where creatable = always_creatable and out_name = None
      and base = "ascii ''decoded''" and LE = enc_locals0,
      OF 1 strstr_s_txt 2 3 4 5 6 7 output_base_None 8 9]
  obtain e d where
    e: "do_encoding 5 enc_locals0 (bmp_image 8 6 0xFE) (ascii ''s.txt'') (ascii ''hi'')
       = Some (e_success, e)"
    and d: "do_decoding dec_locals0 always_creatable (bytes (fptr_stego_image e)) None
       = Some (e_success, d)"
    "fptr_secret_out d
       = Some (ascii ''decoded'' @ ascii ''.txt'',
               \<lparr>bytes = ascii ''hi'', offset = length (ascii ''hi'')\<rparr>)"
    "cstr (dec_extn_secret_file d) = ascii ''.txt''"
    by blast
  have l: "length (ascii ''hi'') = 2" by simp
  from do_decoding_garbage [OF g0, of always_creatable "bytes (fptr_stego_image e)" None]
  obtain d' where
    d': "do_decoding dec_locals_garbage always_creatable (bytes (fptr_stego_image e)) None
       = Some (e_failure, d')" "fptr_secret_out d' = None"
    by blast
  from e d d' g 7 show ?thesis
    unfolding n l by blast
qed

text \<open>
  C4, at a stego image that ends right after the field with the size of the secret
  (signature, extension length 4, extension \<^verbatim>\<open>.txt\<close>, size 2, and no carrier bytes for
  the payload): \<open>do_decoding\<close> returns \<open>e_success\<close> and has written two bytes, the
  uninitialised \<^verbatim>\<open>ch\<close> twice, to the output file.
\<close>

theorem truncated_payload_accepted:
  "length truncated_stego = 166
   \<and> (\<exists>d. do_decoding dec_locals0 always_creatable truncated_stego None = Some (e_success, d)
          \<and> fptr_secret_out d
              = Some (ascii ''decoded.txt'',
                      \<lparr>bytes = [l_ch dec_locals0, l_ch dec_locals0], offset = 2\<rparr>))"
proof -
  let ?x = "ascii ''.txt''"
  have len: "length truncated_stego = 166"
    by (simp add: truncated_stego_def length_embed_fields del: ascii_Cons)
  have stego: "truncated_stego
      = replicate 54 0 @ embed_fields (header_fields ?x 2 @ []) (replicate 112 0xFE) @ []"
    by (simp add: truncated_stego_def del: ascii_Cons)
  have H: "length (replicate 54 (0 :: byte)) = 54" by simp
  have fits: "fields_len (header_fields ?x 2 @ []) \<le> length (replicate 112 (0xFE :: byte))"
    by simp
  have x: "?x \<noteq> []" "length ?x < MAX_FILE_SUFFIX" "0 \<notin> set ?x"
    by (simp_all add: MAX_FILE_SUFFIX_def)
  have m: "l_magic_buffer dec_locals0 2 = 0" by (simp add: dec_locals0_def)
  have c: "always_creatable (ascii ''decoded'' @ ?x)" by (simp add: always_creatable_def)
  have s: "length (ascii ''decoded'' @ ?x) \<le> 255" by simp
  note dh = do_decoding_header(1) [where creatable = always_creatable and out_name = None
      and base = "ascii ''decoded''", OF stego H fits x m output_base_None c s]
  let ?d4 = "\<lparr>dec_fptr_stego_image = \<lparr>bytes = truncated_stego, offset = 54 + (80 + 8 * length ?x)\<rparr>,
              output_fname = None,
              fptr_secret_out = Some (ascii ''decoded'' @ ?x, fopen_wb),
              dec_extn_secret_file = ?x @ replicate (MAX_FILE_SUFFIX - length ?x) 0,
              dec_size_secret_file = sint (2 :: cint),
              extn_size = of_nat (length ?x)\<rparr>"
  have r: "rest (dec_fptr_stego_image ?d4) = []"
    using len by (simp add: rest_def)
  have o: "fptr_secret_out ?d4 = Some (ascii ''decoded'' @ ?x, fopen_wb)" by simp
  note k5 = dec_k5_exhausted [OF r o, of dec_locals0]
  have n: "ascii ''decoded'' @ ?x = ascii ''decoded.txt''" by simp
  have two: "replicate 2 (l_ch dec_locals0) = [l_ch dec_locals0, l_ch dec_locals0]"
    by (simp add: numeral_2_eq_2)
  from dh k5 len show ?thesis
    unfolding n by (simp add: two del: ascii_Cons)
qed

text \<open>The decoder on a stego image that holds a whole container.\<close>

lemma do_decoding_container:
  assumes stego: "stego = H @ embed_fields (container extn (of_nat (length secret)) secret) cs @ tail"
    and H: "length H = 54"
    and fits: "fields_len (container extn (of_nat (length secret)) secret) \<le> length cs"
    and extn: "extn \<noteq> []" "length extn < MAX_FILE_SUFFIX" "0 \<notin> set extn"
    and small: "length secret < 2 ^ 31"
    and magic: "l_magic_buffer L 2 = 0"
    and ob: "output_base out_name = Some base"
    and creat: "creatable (base @ extn)" "length (base @ extn) \<le> 255"
  shows "\<exists>d. do_decoding L creatable stego out_name = Some (e_success, d)
           \<and> fptr_secret_out d
               = Some (base @ extn, \<lparr>bytes = secret, offset = length secret\<rparr>)
           \<and> cstr (dec_extn_secret_file d) = extn"
proof -
  let ?S = "length secret"
  have x5: "length extn < 5" using extn(2) by (simp add: MAX_FILE_SUFFIX_def)
  have sS: "sint (of_nat ?S :: cint) = int ?S"
    by (rule sint_small_of_nat) (rule small)
  have stego': "stego = H @ embed_fields (header_fields extn (of_nat ?S) @ map Byte secret) cs @ tail"
    using stego by (simp add: container_header_fields)
  have fits': "fields_len (header_fields extn (of_nat ?S) @ map Byte secret) \<le> length cs"
    using fits by (simp add: container_header_fields)
  note dh1 = do_decoding_header(1) [where creatable = creatable and out_name = out_name
      and base = base, OF stego' H fits' extn magic ob creat]
  note dh2 = do_decoding_header(2) [OF stego' H fits' extn magic]
  let ?d4 = "\<lparr>dec_fptr_stego_image = \<lparr>bytes = stego, offset = 54 + (80 + 8 * length extn)\<rparr>,
              output_fname = out_name,
              fptr_secret_out = Some (base @ extn, fopen_wb),
              dec_extn_secret_file = extn @ replicate (MAX_FILE_SUFFIX - length extn) 0,
              dec_size_secret_file = sint (of_nat ?S :: cint),
              extn_size = of_nat (length extn)\<rparr>"
  have r4: "rest (dec_fptr_stego_image ?d4)
              = embed_fields (map Byte secret) (drop (80 + 8 * length extn) cs) @ tail"
    using dh2 by (simp add: rest_def)
  have l4: "8 * ?S \<le> length (drop (80 + 8 * length extn) cs)"
    using fits' by simp
  have o4: "fptr_secret_out ?d4 = Some (base @ extn, fopen_wb)" by simp
  have z4: "dec_size_secret_file ?d4 = int ?S" by (simp add: sS)
  note k5 = dec_k5_embedded [OF r4 l4 o4 z4, of L]
  have c: "cstr (extn @ replicate (MAX_FILE_SUFFIX - length extn) 0) = extn"
  proof -
    have "MAX_FILE_SUFFIX - length extn = Suc (MAX_FILE_SUFFIX - length extn - 1)"
      using x5 by (simp add: MAX_FILE_SUFFIX_def)
    then have "replicate (MAX_FILE_SUFFIX - length extn) (0 :: byte)
                 = 0 # replicate (MAX_FILE_SUFFIX - length extn - 1) 0"
      by (metis replicate_Suc)
    then show ?thesis using extn(3) by (simp add: cstr_terminated)
  qed
  from dh1 k5 c show ?thesis by simp
qed

lemma example_stego_fields:
  "example_stego
     = replicate 54 0
         @ embed_fields (container (ascii ''.txt'') (of_nat (length (ascii ''hi''))) (ascii ''hi''))
             (replicate 144 0xFE) @ []"
  "length (replicate 54 (0 :: byte)) = 54"
  "fields_len (container (ascii ''.txt'') (of_nat (length (ascii ''hi''))) (ascii ''hi''))
     \<le> length (replicate 144 (0xFE :: byte))"
  "ascii ''.txt'' \<noteq> []" "length (ascii ''.txt'') < MAX_FILE_SUFFIX" "0 \<notin> set (ascii ''.txt'')"
  "l_magic_buffer dec_locals0 2 = 0"
  by (simp_all add: example_stego_def fields_len_container MAGIC_STRING_def MAX_FILE_SUFFIX_def
        dec_locals0_def)

lemma example_stego_decoding:
  assumes "output_base out_name = Some base" and "length base \<le> 251"
  shows "\<exists>d. do_decoding dec_locals0 always_creatable example_stego out_name = Some (e_success, d)
           \<and> fptr_secret_out d
               = Some (base @ ascii ''.txt'', \<lparr>bytes = ascii ''hi'', offset = 2\<rparr>)
           \<and> cstr (dec_extn_secret_file d) = ascii ''.txt''"
proof -
  let ?x = "ascii ''.txt''"
  let ?s = "ascii ''hi''"
  have small: "length ?s < 2 ^ 31" by simp
  have c: "always_creatable (base @ ?x)" by (simp add: always_creatable_def)
  have s: "length (base @ ?x) \<le> 255" using assms(2) by simp
  from do_decoding_container [where creatable = always_creatable and out_name = out_name
      and base = base, OF example_stego_fields(1-6) small example_stego_fields(7) assms(1) c s]
  show ?thesis by (simp add: numeral_2_eq_2 del: ascii_Cons)
qed

text \<open>The same image when the name of the output file is undefined.\<close>

lemma example_stego_undefined:
  assumes "output_base out_name = None"
  shows "do_decoding dec_locals0 always_creatable example_stego out_name = None"
proof -
  have stego: "example_stego
      = replicate 54 0
          @ embed_fields (header_fields (ascii ''.txt'') (of_nat (length (ascii ''hi'')))
                            @ map Byte (ascii ''hi'')) (replicate 144 0xFE) @ []"
    using example_stego_fields(1) by (simp only: container_header_fields)
  have fits: "fields_len (header_fields (ascii ''.txt'') (of_nat (length (ascii ''hi'')))
                            @ map Byte (ascii ''hi'')) \<le> length (replicate 144 (0xFE :: byte))"
    using example_stego_fields(3) by (simp only: container_header_fields)
  show ?thesis
    by (rule do_decoding_header(3) [OF stego example_stego_fields(2) fits
          example_stego_fields(4-7) assms])
qed

lemma decode_byte_zero_carrier: "snd (decode_byte_from_lsb (replicate 8 0)) = 0"
proof (rule bit_word_eqI)
  fix j assume "j < LENGTH(8)"
  then show "bit (snd (decode_byte_from_lsb (replicate 8 0))) j = bit (0 :: byte) j"
    by (simp add: decode_byte_bit)
qed

lemma decoded_signature_eq:
  "decoded_signature stego =
     [snd (decode_byte_from_lsb (take 8 (drop 54 stego))),
      snd (decode_byte_from_lsb (take 8 (drop 62 stego)))]"
proof -
  have "[0..<length MAGIC_STRING] = [0, 1]" by (simp add: MAGIC_STRING_def upt_rec)
  then show ?thesis by (simp add: decoded_signature_def)
qed

text \<open>
  C5. When the stego image has the 16 carrier bytes of the signature and the two bytes
  decoded from them are not the signature, \<open>do_decoding\<close> returns \<open>e_failure\<close>; the
  stream then stands right behind the signature field, and no output file has been
  created.
\<close>

theorem signature_mismatch_rejected:
  assumes "54 + 8 * length MAGIC_STRING \<le> length stego"
    and "decoded_signature stego \<noteq> MAGIC_STRING"
  shows "\<exists>d. do_decoding L creatable stego out_name = Some (e_failure, d)
           \<and> offset (dec_fptr_stego_image d) = 54 + 8 * length MAGIC_STRING
           \<and> bytes (dec_fptr_stego_image d) = stego
           \<and> fptr_secret_out d = None"
proof -
  let ?d0 = "dec_opened stego out_name"
  let ?f = "dec_fptr_stego_image ?d0"
  have len: "16 \<le> length (rest ?f)"
    using assms(1) by (simp add: rest_dec_opened MAGIC_STRING_def)
  have r: "rest ?f = drop 54 stego" by (simp add: rest_dec_opened)
  have ne: "\<not> (snd (decode_byte_from_lsb (take 8 (rest ?f))) = 0x23
             \<and> snd (decode_byte_from_lsb (take 8 (drop 8 (rest ?f)))) = 0x2A
             \<and> l_magic_buffer L 2 = 0)"
    using assms(2) unfolding r decoded_signature_eq by (auto simp add: MAGIC_STRING_def)
  have m: "decode_magic_string (l_magic_buffer L) ?d0
             = (e_failure, ?d0\<lparr>dec_fptr_stego_image := ?f\<lparr>offset := offset ?f + 16\<rparr>\<rparr>)"
    using decode_magic_string_read [OF len, of "l_magic_buffer L"] ne by simp
  have "do_decoding L creatable stego out_name
          = Some (e_failure, ?d0\<lparr>dec_fptr_stego_image := ?f\<lparr>offset := offset ?f + 16\<rparr>\<rparr>)"
    unfolding do_decoding_tails m by (simp add: on_success_def)
  then show ?thesis
    by (simp add: rest_dec_opened MAGIC_STRING_def)
qed

theorem signature_mismatch_rejected_witness:
  "\<exists>d. 54 + 8 * length MAGIC_STRING \<le> length (bmp_image 8 6 0)
      \<and> decoded_signature (bmp_image 8 6 0) = [0, 0]
      \<and> decoded_signature (bmp_image 8 6 0) \<noteq> MAGIC_STRING
      \<and> do_decoding dec_locals0 always_creatable (bmp_image 8 6 0) None = Some (e_failure, d)
      \<and> offset (dec_fptr_stego_image d) = 70
      \<and> fptr_secret_out d = None"
proof -
  have 1: "54 + 8 * length MAGIC_STRING \<le> length (bmp_image 8 6 0)"
    by (simp add: bmp_image_geometry MAGIC_STRING_def)
  have t: "take 8 (drop 54 (bmp_image 8 6 0)) = replicate 8 0"
      "take 8 (drop 62 (bmp_image 8 6 0)) = replicate 8 0"
    by (simp_all add: bmp_image_def)
  have 2: "decoded_signature (bmp_image 8 6 0) = [0, 0]"
    unfolding decoded_signature_eq t by (simp add: decode_byte_zero_carrier)
  have 3: "decoded_signature (bmp_image 8 6 0) \<noteq> MAGIC_STRING"
    unfolding 2 by (simp add: MAGIC_STRING_def)
  have m: "54 + 8 * length MAGIC_STRING = 70" by (simp add: MAGIC_STRING_def)
  from signature_mismatch_rejected [OF 1 3, of dec_locals0 always_creatable None]
  obtain d where
    "do_decoding dec_locals0 always_creatable (bmp_image 8 6 0) None = Some (e_failure, d)"
    "offset (dec_fptr_stego_image d) = 70" "fptr_secret_out d = None"
    unfolding m by blast
  with 1 2 3 show ?thesis by blast
qed

text \<open>
  C9, at the base name \<^verbatim>\<open>.out\<close> and an image that holds the secret \<^verbatim>\<open>hi\<close> with the
  extension \<^verbatim>\<open>.txt\<close>. The part of the name before its first period is empty.
  \<^verbatim>\<open>strtok\<close> skips the leading period and returns the token \<^verbatim>\<open>out\<close> at
  \<^verbatim>\<open>base + 1\<close>, so the fallback to the default stem is not taken, and
  \<^verbatim>\<open>strcpy(base, token)\<close> copies between overlapping bytes of \<^verbatim>\<open>base\<close>: the name of the
  output file, and with it the run of \<open>do_decoding\<close>, is undefined. Without a base name
  the same image is decoded into \<^verbatim>\<open>decoded.txt\<close>.
\<close>

theorem leading_period_name_undefined:
  "before_first_period (ascii ''.out'') = []
   \<and> strtok (take 255 (ascii ''.out'')) (ascii ''.'') = Some (1, ascii ''out'')
   \<and> output_base (Some (ascii ''.out'')) = None
   \<and> do_decoding dec_locals0 always_creatable example_stego (Some (ascii ''.out'')) = None
   \<and> (\<exists>d. do_decoding dec_locals0 always_creatable example_stego None = Some (e_success, d)
          \<and> fptr_secret_out d
              = Some (ascii ''decoded.txt'', \<lparr>bytes = ascii ''hi'', offset = 2\<rparr>)
          \<and> cstr (dec_extn_secret_file d) = ascii ''.txt'')"
proof -
  have b: "before_first_period (ascii ''.out'') = []"
    by (simp add: before_first_period_def)
  have t: "strtok (take 255 (ascii ''.out'')) (ascii ''.'') = Some (1, ascii ''out'')"
    by (simp add: strtok_def)
  have o: "output_base (Some (ascii ''.out'')) = None"
    unfolding output_base_def option.case Let_def t by simp
  note u = example_stego_undefined [OF o]
  have l: "length (ascii ''decoded'') \<le> 251" by simp
  have n: "ascii ''decoded'' @ ascii ''.txt'' = ascii ''decoded.txt''" by simp
  from example_stego_decoding [OF output_base_None l]
  have d: "\<exists>d. do_decoding dec_locals0 always_creatable example_stego None = Some (e_success, d)
          \<and> fptr_secret_out d
              = Some (ascii ''decoded.txt'', \<lparr>bytes = ascii ''hi'', offset = 2\<rparr>)
          \<and> cstr (dec_extn_secret_file d) = ascii ''.txt''"
    unfolding n .
  from b t o u d show ?thesis by blast
qed

end
